theory Spec2Isabelle
  imports Complex_Main
begin

section \<open>The relational store\<close>

text \<open>
  The repository class \<open>SmartHouseRepository\<close> (\<open>smarthouse/persistence.py\<close>) talks to
  an SQLite database through four relations. Each relation is a list of rows in row
  order; the columns are the ones the SQL statements of the class name.
  The \<open>state\<close> column of \<open>devices\<close> is the one \<open>update_actuator_state\<close> writes and
  \<open>get_actuator_state\<close> reads; the relation \<open>states\<close> is the one \<open>load_smarthouse_deep\<close>
  reads. Numeric columns that hold SQLite REAL values are modelled as \<open>real\<close>, a nullable
  numeric column as \<open>real option\<close>. A value of type \<open>real\<close> stands for the number a stored
  IEEE double denotes.
\<close>

record room_row =
  r_id :: int
  r_floor :: int
  r_area :: real
  r_name :: string

record device_row =
  d_id :: string
  d_room :: int
  d_kind :: string
  d_category :: string
  d_supplier :: string
  d_product :: string
  d_state :: "real option"

record measurement_row =
  m_device :: string
  m_value :: real
  m_unit :: string
  m_ts :: string

record state_row =
  s_device :: string
  s_state :: "real option"

record db =
  db_rooms :: "room_row list"
  db_devices :: "device_row list"
  db_measurements :: "measurement_row list"
  db_states :: "state_row list"

text \<open>
  The exceptions the methods of the repository can raise. \<open>SqliteError\<close> stands for an
  exception of the \<open>sqlite3\<close> module (\<open>sqlite3.OperationalError\<close> and its siblings).
\<close>

datatype error = TypeError | IndexError | KeyError | ValueError | SqliteError

subsection \<open>The SQLite engine\<close>

text \<open>
  What \<open>cursor.execute\<close> followed by \<open>fetchone\<close> can give for a query of one numeric
  column, as far as the loader tells the outcomes apart: \<open>sqlite3\<close> raises; there is no
  row; the cell is NULL; the cell is a value on which Python's \<open>float\<close> gives a number; the
  cell is a value on which \<open>float\<close> raises \<open>ValueError\<close>.
\<close>

datatype fetched = SqliteRaises | NoRow | Null | Number real | NotFloat

text \<open>
  The functions below compute what SQLite computes where that is determined by the
  source and the stored data alone. Where it is not, they ask the engine, which is a
  parameter of the model and about which nothing is assumed:
  \<^item> \<open>q_date\<close>, \<open>q_strftime_Ymd\<close> and \<open>q_strftime_H\<close> are \<open>date(ts)\<close>,
    \<open>strftime('%Y-%m-%d', ts)\<close> and \<open>strftime('%H', ts)\<close> on a text \<open>ts\<close> that is not a
    timestamp of the plain form \<open>YYYY-MM-DD HH:MM:SS\<close> (a time-zone suffix, a day that
    the month does not have, malformed text, ...); the result may be NULL;
  \<^item> \<open>q_avg\<close> is \<open>AVG\<close> over a non-empty sequence of values whose sum or mean double
    arithmetic may round;
  \<^item> \<open>q_fetch\<close> is the outcome of executing a statement text into which
    \<open>load_smarthouse_deep\<close> has spliced a device id that holds a quote character, so
    that the text is no longer the comparison with one string literal.
\<close>

record sqlite =
  q_date :: "string \<Rightarrow> string option"
  q_strftime_Ymd :: "string \<Rightarrow> string option"
  q_strftime_H :: "string \<Rightarrow> string option"
  q_avg :: "real list \<Rightarrow> real"
  q_fetch :: "db \<Rightarrow> string \<Rightarrow> fetched"

subsection \<open>SQL functions used by the queries\<close>

text \<open>
  A timestamp of the plain form \<open>YYYY-MM-DD HH:MM:SS\<close>, the form \<open>datetime('now')\<close>
  writes in \<open>add_measurement_to_sensor\<close>: nineteen characters, digits and separators in
  their places, a month from 01 to 12, a day that the month of that year has, an hour up
  to 23, minute and second up to 59.
\<close>

definition is_digit :: "char \<Rightarrow> bool" where
  "is_digit c = ((48::nat) \<le> of_char c \<and> of_char c \<le> (57::nat))"

definition digits_val :: "string \<Rightarrow> nat" where
  "digits_val cs = foldl (\<lambda>a c. 10 * a + (of_char c - 48)) 0 cs"

definition leap_year :: "nat \<Rightarrow> bool" where
  "leap_year y =
     (if y mod 400 = 0 then True else if y mod 100 = 0 then False else y mod 4 = 0)"

definition days_in_month :: "nat \<Rightarrow> nat \<Rightarrow> nat" where
  "days_in_month y m =
     (if m = 2 then (if leap_year y then 29 else 28)
      else if m = 4 \<or> m = 6 \<or> m = 9 \<or> m = 11 then 30 else 31)"

definition plain_timestamp :: "string \<Rightarrow> bool" where
  "plain_timestamp ts =
     (length ts = 19 \<and>
      list_all is_digit
        (take 4 ts @ take 2 (drop 5 ts) @ take 2 (drop 8 ts) @ take 2 (drop 11 ts) @
         take 2 (drop 14 ts) @ take 2 (drop 17 ts)) \<and>
      ts ! 4 = CHR ''-'' \<and> ts ! 7 = CHR ''-'' \<and> ts ! 10 = CHR '' '' \<and>
      ts ! 13 = CHR '':'' \<and> ts ! 16 = CHR '':'' \<and>
      1 \<le> digits_val (take 2 (drop 5 ts)) \<and> digits_val (take 2 (drop 5 ts)) \<le> 12 \<and>
      1 \<le> digits_val (take 2 (drop 8 ts)) \<and>
      digits_val (take 2 (drop 8 ts)) \<le>
        days_in_month (digits_val (take 4 ts)) (digits_val (take 2 (drop 5 ts))) \<and>
      digits_val (take 2 (drop 11 ts)) \<le> 23 \<and>
      digits_val (take 2 (drop 14 ts)) \<le> 59 \<and>
      digits_val (take 2 (drop 17 ts)) \<le> 59)"

text \<open>
  On a plain timestamp \<open>strftime('%Y-%m-%d', ts)\<close> and \<open>date(ts)\<close> are its first ten
  characters and \<open>strftime('%H', ts)\<close> is the two characters of the hour. On any other
  text the engine decides.
\<close>

definition strftime_Ymd :: "sqlite \<Rightarrow> string \<Rightarrow> string option" where
  "strftime_Ymd q ts = (if plain_timestamp ts then Some (take 10 ts) else q_strftime_Ymd q ts)"

definition sql_date :: "sqlite \<Rightarrow> string \<Rightarrow> string option" where
  "sql_date q ts = (if plain_timestamp ts then Some (take 10 ts) else q_date q ts)"

definition strftime_H :: "sqlite \<Rightarrow> string \<Rightarrow> string option" where
  "strftime_H q ts = (if plain_timestamp ts then Some (take 2 (drop 11 ts)) else q_strftime_H q ts)"

text \<open>The SQL comparison \<open>a = b\<close> of two nullable values: it does not hold when one is NULL.\<close>

definition sql_eq :: "'a option \<Rightarrow> 'a option \<Rightarrow> bool" where
  "sql_eq a b = (case a of None \<Rightarrow> False | Some x \<Rightarrow> b = Some x)"

text \<open>
  SQLite compares two TEXT values byte by byte (\<open>memcmp\<close>); when one is a prefix of the
  other the shorter one is the smaller.
\<close>

fun text_le :: "string \<Rightarrow> string \<Rightarrow> bool" where
  "text_le [] ys = True"
| "text_le (x # xs) [] = False"
| "text_le (x # xs) (y # ys) =
     (if (of_char x :: nat) < of_char y then True
      else if (of_char y :: nat) < of_char x then False
      else text_le xs ys)"

text \<open>
  SQLite computes \<open>AVG\<close> in double arithmetic: the sum of the values divided by their
  number. When the values are whole numbers, the sum of their magnitudes stays below
  \<open>2^53\<close> and their mean is a whole number, no step of that computation rounds and the
  result is the mean. For any other values the engine decides.
\<close>

definition exact_mean :: "real list \<Rightarrow> bool" where
  "exact_mean vs =
     (list_all (\<lambda>v. of_int \<lfloor>v\<rfloor> = v) vs \<and> sum_list (map abs vs) < 2 ^ 53 \<and>
      of_int \<lfloor>sum_list vs / real (length vs)\<rfloor> = sum_list vs / real (length vs))"

definition avg_of :: "sqlite \<Rightarrow> real list \<Rightarrow> real" where
  "avg_of q vs = (if exact_mean vs then sum_list vs / real (length vs) else q_avg q vs)"

text \<open>\<open>AVG\<close> over no rows is NULL.\<close>

definition sql_avg :: "sqlite \<Rightarrow> real list \<Rightarrow> real option" where
  "sql_avg q vs = (if vs = [] then None else Some (avg_of q vs))"

text \<open>\<open>MAX\<close> over no rows is NULL.\<close>

fun sql_max :: "int list \<Rightarrow> int option" where
  "sql_max [] = None"
| "sql_max (x # xs) = (case sql_max xs of None \<Rightarrow> Some x | Some m \<Rightarrow> Some (max x m))"

text \<open>Python's \<open>int\<close> on a string of decimal digits.\<close>

definition py_int :: "string \<Rightarrow> int" where
  "py_int s = foldl (\<lambda>a c. 10 * a + (int (of_char c) - 48)) 0 s"

text \<open>The unit string \<open>\<degree>C\<close> in UTF-8: the degree sign is the two bytes C2 B0.\<close>

definition degC :: string where
  "degC = [CHR 0xC2, CHR 0xB0, CHR ''C'']"

section \<open>Aggregation queries\<close>

subsection \<open>\<open>calc_avg_temperatures_in_room\<close>\<close>

text \<open>
  Python's \<open>if from_date:\<close> and \<open>if until_date:\<close> add a bound only for a string that is
  neither \<open>None\<close> nor empty.
\<close>

definition from_ok :: "string option \<Rightarrow> string \<Rightarrow> bool" where
  "from_ok from_date ts =
     (case from_date of None \<Rightarrow> True
      | Some f \<Rightarrow> (if f = [] then True else text_le f ts))"

definition until_ok :: "string option \<Rightarrow> string \<Rightarrow> bool" where
  "until_ok until_date ts =
     (case until_date of None \<Rightarrow> True
      | Some u \<Rightarrow> (if u = [] then True else text_le ts u))"

text \<open>
  The rows of \<open>measurements m JOIN devices d ON m.device = d.id JOIN rooms r ON d.room = r.id\<close>
  that pass the \<open>WHERE\<close> clause.
\<close>

definition temperature_rows ::
  "db \<Rightarrow> string \<Rightarrow> string option \<Rightarrow> string option \<Rightarrow> measurement_row list" where
  "temperature_rows s name from_date until_date =
     [m. m \<leftarrow> db_measurements s, d \<leftarrow> db_devices s, m_device m = d_id d,
         r \<leftarrow> db_rooms s, d_room d = r_id r,
         r_name r = name, m_unit m = degC,
         from_ok from_date (m_ts m), until_ok until_date (m_ts m)]"

text \<open>
  \<open>GROUP BY strftime('%Y-%m-%d', m.ts)\<close> gives one row per date, the rows whose date is
  NULL forming one group; the loop over the rows fills the dictionary
  \<open>avg_temperatures\<close>, whose key for the NULL group is \<open>None\<close>. The room is given by its
  \<open>room_name\<close>.
\<close>

definition calc_avg_temperatures_in_room ::
  "sqlite \<Rightarrow> db \<Rightarrow> string \<Rightarrow> string option \<Rightarrow> string option \<Rightarrow> (string option \<rightharpoonup> real)" where
  "calc_avg_temperatures_in_room q s name from_date until_date =
     (let rows = temperature_rows s name from_date until_date
      in map_of [(day, avg_of q [m_value m. m \<leftarrow> rows, strftime_Ymd q (m_ts m) = day]).
                 day \<leftarrow> remdups (map (\<lambda>m. strftime_Ymd q (m_ts m)) rows)])"

subsection \<open>\<open>calc_hours_with_humidity_above\<close>\<close>

text \<open>The correlated scalar subquery \<open>avg_humidity\<close> of an inner row \<open>(m, d)\<close>.\<close>

definition avg_humidity :: "sqlite \<Rightarrow> db \<Rightarrow> measurement_row \<Rightarrow> device_row \<Rightarrow> real option" where
  "avg_humidity q s m d =
     sql_avg q [m_value m2. m2 \<leftarrow> db_measurements s, d2 \<leftarrow> db_devices s,
                m_device m2 = d_id d2,
                sql_eq (strftime_H q (m_ts m2)) (strftime_H q (m_ts m)),
                d_room d2 = d_room d, m_unit m2 = m_unit m,
                sql_eq (sql_date q (m_ts m2)) (sql_date q (m_ts m)),
                d_kind d2 = ''Humidity Sensor'']"

text \<open>
  The rows of \<open>measurements INNER JOIN devices\<close> that pass the \<open>WHERE\<close> clause of the
  derived table: the humidity readings of the room on the date.
\<close>

definition humidity_rows :: "sqlite \<Rightarrow> db \<Rightarrow> int \<Rightarrow> string \<Rightarrow> (measurement_row \<times> device_row) list" where
  "humidity_rows q s room_id date =
     [(m, d). m \<leftarrow> db_measurements s, d \<leftarrow> db_devices s, m_device m = d_id d,
        d_room d = room_id, m_unit m = ''%'', sql_date q (m_ts m) = Some date,
        d_kind d = ''Humidity Sensor'']"

text \<open>The derived table \<open>subquery\<close>: columns \<open>hour\<close>, \<open>value\<close>, \<open>avg_humidity\<close>.\<close>

definition subquery ::
  "sqlite \<Rightarrow> db \<Rightarrow> int \<Rightarrow> string \<Rightarrow> (string option \<times> real \<times> real option) list" where
  "subquery q s room_id date =
     map (\<lambda>(m, d). (strftime_H q (m_ts m), m_value m, avg_humidity q s m d))
       (humidity_rows q s room_id date)"

text \<open>
  The outer \<open>WHERE hour IN ('07', '08', '09', '12', '18') AND value > avg_humidity\<close>;
  a comparison with NULL does not hold.
\<close>

definition hour_list :: "string list" where
  "hour_list = [''07'', ''08'', ''09'', ''12'', ''18'']"

definition above_avg :: "(string option \<times> real \<times> real option) \<Rightarrow> bool" where
  "above_avg row = (case row of (hour, v, a) \<Rightarrow>
     (case hour of None \<Rightarrow> False | Some h \<Rightarrow> h \<in> set hour_list) \<and>
     (case a of None \<Rightarrow> False | Some av \<Rightarrow> v > av))"

text \<open>\<open>GROUP BY hour HAVING COUNT(*) > 3\<close>, one row per hour that is left.\<close>

definition grouped_hours ::
  "(string option \<times> real \<times> real option) list \<Rightarrow> string option list" where
  "grouped_hours rows =
     [h. h \<leftarrow> remdups (map fst rows), length (filter (\<lambda>row. fst row = h) rows) > 3]"

text \<open>
  The room is given by its \<open>room_name\<close>. The hours that reach \<open>int(row[0])\<close> have passed
  the \<open>IN\<close> test, so none of them is NULL.
\<close>

definition calc_hours_with_humidity_above ::
  "sqlite \<Rightarrow> db \<Rightarrow> string \<Rightarrow> string \<Rightarrow> error + int list" where
  "calc_hours_with_humidity_above q s name date =
     (case find (\<lambda>r. r_name r = name) (db_rooms s) of
        None \<Rightarrow> Inl ValueError
      | Some r \<Rightarrow>
          Inr (sort (map py_int
                 [h. Some h \<leftarrow> grouped_hours (filter above_avg (subquery q s (r_id r) date))])))"

section \<open>Actuator state in the \<open>devices\<close> relation\<close>

text \<open>
  \<open>update_actuator_state(actuator, new_state: bool)\<close> runs
  \<open>UPDATE devices SET state = ? WHERE id = ?\<close> with the parameters
  \<open>(1 if new_state else 0, actuator.id)\<close>; the actuator is given here by its id.
\<close>

definition update_actuator_state :: "db \<Rightarrow> string \<Rightarrow> bool \<Rightarrow> db" where
  "update_actuator_state s actuator_id new_state =
     s\<lparr>db_devices :=
         map (\<lambda>d. if d_id d = actuator_id
                   then d\<lparr>d_state := Some (if new_state then 1 else 0)\<rparr> else d)
             (db_devices s)\<rparr>"

text \<open>Python's \<open>bool\<close> on a nullable number.\<close>

fun py_bool :: "real option \<Rightarrow> bool" where
  "py_bool None = False"
| "py_bool (Some v) = (v \<noteq> 0)"

definition get_actuator_state :: "db \<Rightarrow> string \<Rightarrow> bool option" where
  "get_actuator_state s actuator_id =
     (case find (\<lambda>d. d_id d = actuator_id) (db_devices s) of
        None \<Rightarrow> None
      | Some row \<Rightarrow> Some (py_bool (d_state row)))"

section \<open>The device model\<close>

text \<open>
  Modelled from the spec: the module \<open>smarthouse/domain.py\<close> (classes \<open>SmartHouse\<close>,
  \<open>Sensor\<close>, \<open>Actuator\<close>, \<open>ActuatorWithSensor\<close>, rooms and floors) is not among the
  source files. Section 3 of the specification gives an actuator the three states
  \<open>Off\<close>, \<open>On\<close> and \<open>OnWithLevel(level)\<close> with the mutations \<open>turn_off()\<close>, \<open>turn_on()\<close> and
  \<open>turn_on(level)\<close>, and pins the state of a fresh actuator to \<open>Off\<close>.
\<close>

datatype actuator_state = Off | On | OnWithLevel real

record device_info =
  dev_id :: string
  model_name :: string
  supplier :: string
  device_type :: string

text \<open>
  Modelled from the spec: the three device variants of \<open>smarthouse/domain.py\<close>; the
  constructors take \<open>id\<close>, \<open>model_name\<close>, \<open>supplier\<close>, \<open>device_type\<close> in this order, the
  order of the keyword call in \<open>get_device_by_id\<close>.
\<close>

datatype device =
    Sensor device_info
  | Actuator device_info actuator_state
  | ActuatorWithSensor device_info actuator_state

definition new_info :: "string \<Rightarrow> string \<Rightarrow> string \<Rightarrow> string \<Rightarrow> device_info" where
  "new_info i m sp t = \<lparr>dev_id = i, model_name = m, supplier = sp, device_type = t\<rparr>"

fun info_of :: "device \<Rightarrow> device_info" where
  "info_of (Sensor i) = i"
| "info_of (Actuator i st) = i"
| "info_of (ActuatorWithSensor i st) = i"

fun state_of :: "device \<Rightarrow> actuator_state option" where
  "state_of (Sensor i) = None"
| "state_of (Actuator i st) = Some st"
| "state_of (ActuatorWithSensor i st) = Some st"

text \<open>
  Modelled from the spec: \<open>isinstance(dev, Actuator)\<close> holds for the actuator-capable
  variants, \<open>Actuator\<close> and \<open>ActuatorWithSensor\<close> (section 4.1, step 5).
\<close>

fun is_actuator :: "device \<Rightarrow> bool" where
  "is_actuator (Sensor i) = False"
| "is_actuator (Actuator i st) = True"
| "is_actuator (ActuatorWithSensor i st) = True"

text \<open>Modelled from the spec: the mutations of the actuator state (section 3).\<close>

fun set_state :: "actuator_state \<Rightarrow> device \<Rightarrow> device" where
  "set_state st (Sensor i) = Sensor i"
| "set_state st (Actuator i old) = Actuator i st"
| "set_state st (ActuatorWithSensor i old) = ActuatorWithSensor i st"

definition turn_off :: "device \<Rightarrow> device" where
  "turn_off dev = set_state Off dev"

definition turn_on :: "device \<Rightarrow> real option \<Rightarrow> device" where
  "turn_on dev target = (case target of None \<Rightarrow> set_state On dev
                         | Some v \<Rightarrow> set_state (OnWithLevel v) dev)"

text \<open>
  Modelled from the spec: rooms, floors and the house of \<open>smarthouse/domain.py\<close>
  (section 3). \<open>register_floor\<close>, \<open>register_room\<close> and \<open>register_device\<close> append to the
  sequence of the parent; \<open>get_devices\<close> lists the devices of all rooms of all floors,
  floor by floor and room by room.
  A room object is referred to by the index of its floor and its index in the floor.
\<close>

record room =
  room_name :: string
  room_size :: real
  db_id :: "int option"
  room_devices :: "device list"

record floor =
  level :: int
  floor_rooms :: "room list"

type_synonym smarthouse = "floor list"

type_synonym room_ref = "nat \<times> nat"

definition register_floor :: "smarthouse \<Rightarrow> int \<Rightarrow> smarthouse" where
  "register_floor h lv = h @ [\<lparr>level = lv, floor_rooms = []\<rparr>]"

definition register_room :: "smarthouse \<Rightarrow> nat \<Rightarrow> real \<Rightarrow> string \<Rightarrow> smarthouse \<times> room_ref" where
  "register_room h fi area name =
     (h[fi := (h ! fi)\<lparr>floor_rooms := floor_rooms (h ! fi) @
                 [\<lparr>room_name = name, room_size = area, db_id = None, room_devices = []\<rparr>]\<rparr>],
      (fi, length (floor_rooms (h ! fi))))"

definition update_room :: "smarthouse \<Rightarrow> room_ref \<Rightarrow> (room \<Rightarrow> room) \<Rightarrow> smarthouse" where
  "update_room h ref g =
     (case ref of (fi, ri) \<Rightarrow>
        h[fi := (h ! fi)\<lparr>floor_rooms :=
               (floor_rooms (h ! fi))[ri := g (floor_rooms (h ! fi) ! ri)]\<rparr>])"

definition register_device :: "smarthouse \<Rightarrow> room_ref \<Rightarrow> device \<Rightarrow> smarthouse" where
  "register_device h ref dev = update_room h ref (\<lambda>r. r\<lparr>room_devices := room_devices r @ [dev]\<rparr>)"

definition get_devices :: "smarthouse \<Rightarrow> device list" where
  "get_devices h = concat (map room_devices (concat (map floor_rooms h)))"

section \<open>\<open>get_device_by_id\<close>\<close>

definition get_device_by_id :: "db \<Rightarrow> string \<Rightarrow> device option" where
  "get_device_by_id s device_id =
     (case find (\<lambda>d. d_id d = device_id) (db_devices s) of
        None \<Rightarrow> None
      | Some row \<Rightarrow>
          if d_category row = ''sensor''
          then Some (Sensor (new_info (d_id row) (d_product row) (d_supplier row) (d_kind row)))
          else if d_category row = ''actuator''
          then Some (Actuator (new_info (d_id row) (d_product row) (d_supplier row) (d_kind row)) Off)
          else None)"

section \<open>\<open>load_smarthouse_deep\<close>\<close>

text \<open>
  The loop \<open>for i in range(0, no_floors): floors.append(result.register_floor(i + 1))\<close>.
  The house starts empty, so the local list \<open>floors\<close> and the floors of the house hold the
  same objects at the same indices.
\<close>

definition create_floors :: "int \<Rightarrow> smarthouse" where
  "create_floors no_floors = fold (\<lambda>i h. register_floor h (int i + 1)) [0..<nat no_floors] []"

text \<open>
  Python's list indexing \<open>floors[k]\<close> on a list of length \<open>n\<close>: a negative index counts
  from the end, an index out of range raises \<open>IndexError\<close>.
\<close>

definition py_index :: "nat \<Rightarrow> int \<Rightarrow> nat option" where
  "py_index n k =
     (let j = (if k < 0 then int n + k else k)
      in if 0 \<le> j \<and> j < int n then Some (nat j) else None)"

text \<open>The loop over \<open>room_tuples\<close>, filling \<open>room_dict\<close>.\<close>

fun load_rooms ::
  "room_row list \<Rightarrow> smarthouse \<Rightarrow> (int \<rightharpoonup> room_ref) \<Rightarrow> error + (smarthouse \<times> (int \<rightharpoonup> room_ref))" where
  "load_rooms [] h room_dict = Inr (h, room_dict)"
| "load_rooms (t # ts) h room_dict =
     (case py_index (length h) (r_floor t - 1) of
        None \<Rightarrow> Inl IndexError
      | Some fi \<Rightarrow>
          (case register_room h fi (r_area t) (r_name t) of
             (h1, ref) \<Rightarrow>
               load_rooms ts (update_room h1 ref (\<lambda>r. r\<lparr>db_id := Some (r_id t)\<rparr>))
                 (room_dict(r_id t \<mapsto> ref))))"

text \<open>The \<open>if\<close>/\<open>elif\<close> chain on \<open>category\<close> in the loop over \<open>device_tuples\<close>.\<close>

definition device_of_tuple :: "device_row \<Rightarrow> device option" where
  "device_of_tuple t =
     (if d_category t = ''sensor''
      then Some (Sensor (new_info (d_id t) (d_product t) (d_supplier t) (d_kind t)))
      else if d_category t = ''actuator''
      then (if d_kind t = ''Heat Pump''
            then Some (ActuatorWithSensor
                         (new_info (d_id t) (d_product t) (d_supplier t) (d_kind t)) Off)
            else Some (Actuator (new_info (d_id t) (d_product t) (d_supplier t) (d_kind t)) Off))
      else None)"

text \<open>The loop over \<open>device_tuples\<close>: \<open>room_dict[device_tuple[1]]\<close> raises \<open>KeyError\<close>.\<close>

fun load_devices :: "(int \<rightharpoonup> room_ref) \<Rightarrow> device_row list \<Rightarrow> smarthouse \<Rightarrow> error + smarthouse" where
  "load_devices room_dict [] h = Inr h"
| "load_devices room_dict (t # ts) h =
     (case room_dict (d_room t) of
        None \<Rightarrow> Inl KeyError
      | Some ref \<Rightarrow>
          (case device_of_tuple t of
             None \<Rightarrow> load_devices room_dict ts h
           | Some dev \<Rightarrow> load_devices room_dict ts (register_device h ref dev)))"

text \<open>
  The statement text of the f-string
  \<open>f"SELECT state FROM states where device = '{dev.id}';"\<close>: the id is spliced between two
  quote characters (\<open>CHR 0x27\<close>).
\<close>

definition state_query :: "string \<Rightarrow> string" where
  "state_query device_id =
     ''SELECT state FROM states where device = '' @ [CHR 0x27] @ device_id @ [CHR 0x27] @ '';''"

text \<open>
  An id without a quote character (and without a NUL character, which ends the text of a
  statement) is spliced as one string literal, and the statement selects the rows of
  \<open>states\<close> whose \<open>device\<close> equals the id.
\<close>

definition splice_safe :: "string \<Rightarrow> bool" where
  "splice_safe device_id = (CHR 0x27 \<notin> set device_id \<and> CHR 0x00 \<notin> set device_id)"

fun cell :: "real option \<Rightarrow> fetched" where
  "cell None = Null"
| "cell (Some v) = Number v"

text \<open>
  \<open>cursor.execute(...)\<close> on the statement text followed by \<open>fetchone()\<close>. For an id that
  is spliced as one literal the outcome is the state column of the first row of the
  device, if there is one; for any other id the engine decides what the text means.
\<close>

definition fetch_state :: "sqlite \<Rightarrow> db \<Rightarrow> string \<Rightarrow> fetched" where
  "fetch_state q s device_id =
     (if splice_safe device_id
      then (case find (\<lambda>r. s_device r = device_id) (db_states s) of
              None \<Rightarrow> NoRow
            | Some r \<Rightarrow> cell (s_state r))
      else q_fetch q s (state_query device_id))"

text \<open>The body of the loop over \<open>result.get_devices()\<close>.\<close>

definition restore_state :: "sqlite \<Rightarrow> db \<Rightarrow> device \<Rightarrow> error + device" where
  "restore_state q s dev =
     (if is_actuator dev
      then (case fetch_state q s (dev_id (info_of dev)) of
              SqliteRaises \<Rightarrow> Inl SqliteError
            | NoRow \<Rightarrow> Inr dev
            | Null \<Rightarrow> Inr (turn_off dev)
            | Number v \<Rightarrow> Inr (if v = 1 then turn_on dev None else turn_on dev (Some v))
            | NotFloat \<Rightarrow> Inl ValueError)
      else Inr dev)"

text \<open>
  The loop visits the devices in the order of \<open>get_devices\<close>, floor by floor and room by
  room, changes each device in place and stops at the first exception.
\<close>

fun map_result :: "('a \<Rightarrow> error + 'b) \<Rightarrow> 'a list \<Rightarrow> error + 'b list" where
  "map_result g [] = Inr []"
| "map_result g (x # xs) =
     (case g x of
        Inl e \<Rightarrow> Inl e
      | Inr y \<Rightarrow> (case map_result g xs of Inl e \<Rightarrow> Inl e | Inr ys \<Rightarrow> Inr (y # ys)))"

definition restore_room :: "sqlite \<Rightarrow> db \<Rightarrow> room \<Rightarrow> error + room" where
  "restore_room q s r =
     (case map_result (restore_state q s) (room_devices r) of
        Inl e \<Rightarrow> Inl e
      | Inr devs \<Rightarrow> Inr (r\<lparr>room_devices := devs\<rparr>))"

definition restore_floor :: "sqlite \<Rightarrow> db \<Rightarrow> floor \<Rightarrow> error + floor" where
  "restore_floor q s f =
     (case map_result (restore_room q s) (floor_rooms f) of
        Inl e \<Rightarrow> Inl e
      | Inr rs \<Rightarrow> Inr (f\<lparr>floor_rooms := rs\<rparr>))"

definition restore_states :: "sqlite \<Rightarrow> db \<Rightarrow> smarthouse \<Rightarrow> error + smarthouse" where
  "restore_states q s h = map_result (restore_floor q s) h"

definition load_smarthouse_deep :: "sqlite \<Rightarrow> db \<Rightarrow> error + smarthouse" where
  "load_smarthouse_deep q s =
     (case sql_max (map r_floor (db_rooms s)) of
        None \<Rightarrow> Inl TypeError
      | Some no_floors \<Rightarrow>
          (case load_rooms (db_rooms s) (create_floors no_floors) Map.empty of
             Inl e \<Rightarrow> Inl e
           | Inr (h, room_dict) \<Rightarrow>
               (case load_devices room_dict (db_devices s) h of
                  Inl e \<Rightarrow> Inl e
                | Inr h1 \<Rightarrow> restore_states q s h1)))"

section \<open>Auxiliary definitions and example data\<close>

text \<open>
  A room reference is valid in a house when its floor index and its room index are in
  range. The loader only ever holds valid references.
\<close>

definition valid_ref :: "smarthouse \<Rightarrow> room_ref \<Rightarrow> bool" where
  "valid_ref h ref = (case ref of (fi, ri) \<Rightarrow> fi < length h \<and> ri < length (floor_rooms (h ! fi)))"

text \<open>
  An example database: two rooms on floors 1 and 3 (no room on floor 2), a temperature
  sensor, a humidity sensor and a plain actuator in the first room, a heat pump in the
  second; two temperature readings and five humidity readings on one day; a state row for
  each of the two actuators.
\<close>

definition demo_db :: db where
  "demo_db =
     \<lparr>db_rooms =
        [\<lparr>r_id = 1, r_floor = 1, r_area = 20, r_name = ''Living''\<rparr>,
         \<lparr>r_id = 2, r_floor = 3, r_area = 12, r_name = ''Attic''\<rparr>],
      db_devices =
        [\<lparr>d_id = ''t1'', d_room = 1, d_kind = ''Temperature Sensor'', d_category = ''sensor'',
          d_supplier = ''S'', d_product = ''P1'', d_state = None\<rparr>,
         \<lparr>d_id = ''h1'', d_room = 1, d_kind = ''Humidity Sensor'', d_category = ''sensor'',
          d_supplier = ''S'', d_product = ''P2'', d_state = None\<rparr>,
         \<lparr>d_id = ''hp1'', d_room = 2, d_kind = ''Heat Pump'', d_category = ''actuator'',
          d_supplier = ''S'', d_product = ''P3'', d_state = None\<rparr>,
         \<lparr>d_id = ''a1'', d_room = 1, d_kind = ''Smart Plug'', d_category = ''actuator'',
          d_supplier = ''S'', d_product = ''P4'', d_state = None\<rparr>],
      db_measurements =
        [\<lparr>m_device = ''t1'', m_value = 20, m_unit = degC, m_ts = ''2024-01-27 10:00:00''\<rparr>,
         \<lparr>m_device = ''t1'', m_value = 22, m_unit = degC, m_ts = ''2024-01-27 14:00:00''\<rparr>,
         \<lparr>m_device = ''h1'', m_value = 10, m_unit = ''%'', m_ts = ''2024-01-27 10:00:00''\<rparr>,
         \<lparr>m_device = ''h1'', m_value = 90, m_unit = ''%'', m_ts = ''2024-01-27 10:10:00''\<rparr>,
         \<lparr>m_device = ''h1'', m_value = 91, m_unit = ''%'', m_ts = ''2024-01-27 10:20:00''\<rparr>,
         \<lparr>m_device = ''h1'', m_value = 92, m_unit = ''%'', m_ts = ''2024-01-27 10:30:00''\<rparr>,
         \<lparr>m_device = ''h1'', m_value = 92, m_unit = ''%'', m_ts = ''2024-01-27 10:40:00''\<rparr>],
      db_states =
        [\<lparr>s_device = ''hp1'', s_state = Some (999 / 1000)\<rparr>,
         \<lparr>s_device = ''a1'', s_state = None\<rparr>]\<rparr>"

text \<open>The house \<open>load_smarthouse_deep\<close> builds from the example database.\<close>

definition demo_house :: smarthouse where
  "demo_house =
     [\<lparr>level = 1, floor_rooms =
         [\<lparr>room_name = ''Living'', room_size = 20, db_id = Some 1, room_devices =
             [Sensor (new_info ''t1'' ''P1'' ''S'' ''Temperature Sensor''),
              Sensor (new_info ''h1'' ''P2'' ''S'' ''Humidity Sensor''),
              Actuator (new_info ''a1'' ''P4'' ''S'' ''Smart Plug'') Off]\<rparr>]\<rparr>,
      \<lparr>level = 2, floor_rooms = []\<rparr>,
      \<lparr>level = 3, floor_rooms =
         [\<lparr>room_name = ''Attic'', room_size = 12, db_id = Some 2, room_devices =
             [ActuatorWithSensor (new_info ''hp1'' ''P3'' ''S'' ''Heat Pump'')
                (OnWithLevel (999 / 1000))]\<rparr>]\<rparr>]"

text \<open>A database with no rows at all.\<close>

definition empty_db :: db where
  "empty_db = \<lparr>db_rooms = [], db_devices = [], db_measurements = [], db_states = []\<rparr>"

text \<open>The example database with one more device row, which refers to no room.\<close>

definition dangling_db :: db where
  "dangling_db =
     demo_db\<lparr>db_devices := db_devices demo_db @
       [\<lparr>d_id = ''x1'', d_room = 99, d_kind = ''Smart Plug'', d_category = ''actuator'',
         d_supplier = ''S'', d_product = ''P5'', d_state = None\<rparr>]\<rparr>"

text \<open>
  Two device ids with quote characters. Spliced into the statement text of the loader, the
  first gives
  \<open>SELECT state FROM states where device = 'x' OR '1'='1';\<close>
  whose condition holds on every row of \<open>states\<close>, and the second gives
  \<open>SELECT state FROM states where device = 'x' UNION SELECT state FROM devices WHERE id LIKE 'x%';\<close>
  which adds to the states of a device \<open>x\<close> the \<open>state\<close> column of the rows of \<open>devices\<close>
  whose id begins with \<open>x\<close>.
\<close>

definition or_id :: string where
  "or_id = ''x'' @ [CHR 0x27] @ '' OR '' @ [CHR 0x27] @ ''1'' @ [CHR 0x27] @ ''='' @ [CHR 0x27] @ ''1''"

definition union_id :: string where
  "union_id =
     ''x'' @ [CHR 0x27] @ '' UNION SELECT state FROM devices WHERE id LIKE '' @ [CHR 0x27] @ ''x%''"

text \<open>
  \<open>LIKE 'x%'\<close> compares ASCII letters without regard to case. The rows of a \<open>UNION\<close>
  come out without duplicates in ascending order, NULL first, so \<open>fetchone\<close> gives the
  least of them.
\<close>

definition like_x :: "string \<Rightarrow> bool" where
  "like_x i = (case i of [] \<Rightarrow> False | c # cs \<Rightarrow> c = CHR ''x'' \<or> c = CHR ''X'')"

fun sql_least :: "real option \<Rightarrow> real option \<Rightarrow> real option" where
  "sql_least None b = None"
| "sql_least (Some x) None = None"
| "sql_least (Some x) (Some y) = Some (min x y)"

definition first_of_union :: "real option list \<Rightarrow> fetched" where
  "first_of_union vs = (case vs of [] \<Rightarrow> NoRow | v # ws \<Rightarrow> cell (fold sql_least ws v))"

text \<open>
  An engine for the examples. On the two statement texts above it answers as SQLite
  does. The examples ask it nothing else; every other statement text it refuses, every
  other timestamp it takes for malformed, and every other average it gives as 0.
\<close>

definition demo_sqlite :: sqlite where
  "demo_sqlite =
     \<lparr>q_date = (\<lambda>ts. None), q_strftime_Ymd = (\<lambda>ts. None), q_strftime_H = (\<lambda>ts. None),
      q_avg = (\<lambda>vs. 0),
      q_fetch = (\<lambda>s t.
        if t = state_query or_id
        then (case db_states s of [] \<Rightarrow> NoRow | r # rs \<Rightarrow> cell (s_state r))
        else if t = state_query union_id
        then first_of_union
               ([s_state r. r \<leftarrow> db_states s, s_device r = ''x''] @
                [d_state d. d \<leftarrow> db_devices s, like_x (d_id d)])
        else SqliteRaises)\<rparr>"

text \<open>
  A database with one room and two plain actuators: \<open>a1\<close>, stored with the level 0.5,
  and a device with the first of the two ids, stored with NULL.
\<close>

definition or_db :: db where
  "or_db =
     \<lparr>db_rooms = [\<lparr>r_id = 1, r_floor = 1, r_area = 20, r_name = ''Living''\<rparr>],
      db_devices =
        [\<lparr>d_id = ''a1'', d_room = 1, d_kind = ''Smart Plug'', d_category = ''actuator'',
          d_supplier = ''S'', d_product = ''P4'', d_state = None\<rparr>,
         \<lparr>d_id = or_id, d_room = 1, d_kind = ''Smart Plug'', d_category = ''actuator'',
          d_supplier = ''S'', d_product = ''P6'', d_state = None\<rparr>],
      db_measurements = [],
      db_states =
        [\<lparr>s_device = ''a1'', s_state = Some (1 / 2)\<rparr>,
         \<lparr>s_device = or_id, s_state = None\<rparr>]\<rparr>"

text \<open>
  A database with one room and one plain actuator, which has the second of the two ids
  and is stored in \<open>states\<close> with the level 0.5.
\<close>

definition union_db :: db where
  "union_db =
     \<lparr>db_rooms = [\<lparr>r_id = 1, r_floor = 1, r_area = 20, r_name = ''Living''\<rparr>],
      db_devices =
        [\<lparr>d_id = union_id, d_room = 1, d_kind = ''Smart Plug'', d_category = ''actuator'',
          d_supplier = ''S'', d_product = ''P7'', d_state = None\<rparr>],
      db_measurements = [],
      db_states = [\<lparr>s_device = union_id, s_state = Some (1 / 2)\<rparr>]\<rparr>"

text \<open>The example database without its rooms.\<close>

definition no_rooms_db :: db where
  "no_rooms_db = demo_db\<lparr>db_rooms := []\<rparr>"

text \<open>The one room of these two databases, holding the given devices.\<close>

definition one_room_house :: "device list \<Rightarrow> smarthouse" where
  "one_room_house devs =
     [\<lparr>level = 1, floor_rooms =
         [\<lparr>room_name = ''Living'', room_size = 20, db_id = Some 1, room_devices = devs\<rparr>]\<rparr>]"

section \<open>Properties of the SQL functions and of floor creation\<close>

lemma sql_max_None: "sql_max xs = None \<longleftrightarrow> xs = []"
  by (cases xs) (auto split: option.splits)

lemma sql_max_Max: "xs \<noteq> [] \<Longrightarrow> sql_max xs = Some (Max (set xs))"
proof (induction xs)
  case Nil
  then show ?case by simp
next
  case (Cons x xs)
  show ?case
  proof (cases "xs = []")
    case True
    then show ?thesis by simp
  next
    case False
    with Cons.IH have "sql_max xs = Some (Max (set xs))" by simp
    with False show ?thesis by simp
  qed
qed

lemma fold_register_floor:
  "fold (\<lambda>i h. register_floor h (int i + 1)) [a..<b] h0 =
     h0 @ map (\<lambda>i. \<lparr>level = int i + 1, floor_rooms = []\<rparr>) [a..<b]"
proof (induction b)
  case 0
  then show ?case by simp
next
  case (Suc b)
  then show ?case by (cases "a \<le> b") (simp_all add: register_floor_def)
qed

lemma create_floors_eq:
  "create_floors n = map (\<lambda>i. \<lparr>level = int i + 1, floor_rooms = []\<rparr>) [0..<nat n]"
  by (simp add: create_floors_def fold_register_floor)

lemma length_create_floors: "length (create_floors n) = nat n"
  by (simp add: create_floors_eq)


lemma upto_as_map: "map (\<lambda>i. int i + 1) [0..<k] = [1..int k]"
proof (induction k)
  case 0
  then show ?case by simp
next
  case (Suc k)
  then show ?case by (simp add: upto_rec2)
qed

lemma levels_create_floors: "map level (create_floors n) = [1..n]"
proof (cases "0 \<le> n")
  case True
  then show ?thesis using upto_as_map [of "nat n"] by (simp add: create_floors_eq comp_def)
next
  case False
  then show ?thesis by (simp add: create_floors_eq)
qed


section \<open>Properties of the loading loops\<close>

lemma levels_list_update:
  "level f = level (h ! fi) \<Longrightarrow> map level (h[fi := f]) = map level h"
proof (cases "fi < length h")
  case True
  assume "level f = level (h ! fi)"
  with True have "(map level h)[fi := level f] = map level h"
    by (simp add: list_update_same_conv)
  then show ?thesis by (simp add: map_update)
next
  case False
  then have "h[fi := f] = h" by (intro list_update_beyond) simp
  then show ?thesis by simp
qed

lemma levels_register_room: "map level (fst (register_room h fi a n)) = map level h"
  by (simp add: register_room_def levels_list_update)

lemma length_register_room: "length (fst (register_room h fi a n)) = length h"
  by (simp add: register_room_def)

lemma levels_update_room: "map level (update_room h ref g) = map level h"
  by (cases ref) (simp add: update_room_def levels_list_update)

lemma length_update_room: "length (update_room h ref g) = length h"
  by (cases ref) (simp add: update_room_def)

lemma levels_register_device: "map level (register_device h ref dev) = map level h"
  by (simp add: register_device_def levels_update_room)

lemma load_rooms_Inr:
  "load_rooms ts h rd = Inr (h', rd') \<Longrightarrow>
     map level h' = map level h \<and> dom rd' = dom rd \<union> r_id ` set ts"
proof (induction ts arbitrary: h rd)
  case Nil
  then show ?case by simp
next
  case (Cons t ts)
  from Cons.prems obtain fi where fi: "py_index (length h) (r_floor t - 1) = Some fi"
    by (auto split: option.splits)
  obtain h1 ref where reg: "register_room h fi (r_area t) (r_name t) = (h1, ref)"
    by (cases "register_room h fi (r_area t) (r_name t)")
  with Cons.prems fi have
    rec: "load_rooms ts (update_room h1 ref (\<lambda>r. r\<lparr>db_id := Some (r_id t)\<rparr>))
            (rd(r_id t \<mapsto> ref)) = Inr (h', rd')"
    by simp
  from reg have h1: "map level h1 = map level h"
    using levels_register_room [of h fi "r_area t" "r_name t"] by simp
  from Cons.IH [OF rec] h1 show ?case
    by (auto simp: levels_update_room)
qed

lemma load_rooms_error: "load_rooms ts h rd = Inl e \<Longrightarrow> e = IndexError"
proof (induction ts arbitrary: h rd)
  case Nil
  then show ?case by simp
next
  case (Cons t ts)
  then show ?case by (auto split: option.splits prod.splits)
qed

lemma load_rooms_ok:
  "\<forall>t\<in>set ts. py_index (length h) (r_floor t - 1) \<noteq> None \<Longrightarrow>
     \<exists>h' rd'. load_rooms ts h rd = Inr (h', rd')"
proof (induction ts arbitrary: h rd)
  case Nil
  then show ?case by simp
next
  case (Cons t ts)
  from Cons.prems obtain fi where fi: "py_index (length h) (r_floor t - 1) = Some fi"
    by auto
  obtain h1 ref where reg: "register_room h fi (r_area t) (r_name t) = (h1, ref)"
    by (cases "register_room h fi (r_area t) (r_name t)")
  then have len: "length h1 = length h"
    using length_register_room [of h fi "r_area t" "r_name t"] by simp
  let ?h2 = "update_room h1 ref (\<lambda>r. r\<lparr>db_id := Some (r_id t)\<rparr>)"
  have "\<forall>t\<in>set ts. py_index (length ?h2) (r_floor t - 1) \<noteq> None"
    using Cons.prems len by (simp add: length_update_room)
  from Cons.IH [OF this] fi reg show ?case by simp
qed

lemma load_devices_levels: "load_devices rd ts h = Inr h' \<Longrightarrow> map level h' = map level h"
proof (induction ts arbitrary: h)
  case Nil
  then show ?case by simp
next
  case (Cons t ts)
  then show ?case
    by (auto split: option.splits simp: levels_register_device)
qed

lemma load_devices_ok:
  "\<forall>t\<in>set ts. d_room t \<in> dom rd \<Longrightarrow> \<exists>h'. load_devices rd ts h = Inr h'"
proof (induction ts arbitrary: h)
  case Nil
  then show ?case by simp
next
  case (Cons t ts)
  then show ?case by (auto split: option.splits)
qed

lemma load_devices_error: "load_devices rd ts h = Inl e \<Longrightarrow> e = KeyError"
proof (induction ts arbitrary: h)
  case Nil
  then show ?case by simp
next
  case (Cons t ts)
  then show ?case by (auto split: option.splits)
qed

lemma load_devices_dangling:
  "\<exists>t\<in>set ts. d_room t \<notin> dom rd \<Longrightarrow> load_devices rd ts h = Inl KeyError"
proof -
  assume a: "\<exists>t\<in>set ts. d_room t \<notin> dom rd"
  have "\<not> (\<exists>h'. load_devices rd ts h = Inr h')"
    using a
  proof (induction ts arbitrary: h)
    case Nil
    then show ?case by simp
  next
    case (Cons t ts)
    then show ?case by (auto split: option.splits)
  qed
  then obtain e where "load_devices rd ts h = Inl e"
    by (cases "load_devices rd ts h") auto
  then show ?thesis using load_devices_error by blast
qed


section \<open>Devices of a house\<close>

lemma in_get_devices:
  "d \<in> set (get_devices h) \<longleftrightarrow>
     (\<exists>fi ri. valid_ref h (fi, ri) \<and> d \<in> set (room_devices (floor_rooms (h ! fi) ! ri)))"
proof
  assume "d \<in> set (get_devices h)"
  then obtain f r where "f \<in> set h" "r \<in> set (floor_rooms f)" "d \<in> set (room_devices r)"
    by (auto simp: get_devices_def)
  moreover from this obtain fi ri where
    "fi < length h" "h ! fi = f" "ri < length (floor_rooms f)" "floor_rooms f ! ri = r"
    by (auto simp: in_set_conv_nth)
  ultimately show
    "\<exists>fi ri. valid_ref h (fi, ri) \<and> d \<in> set (room_devices (floor_rooms (h ! fi) ! ri))"
    by (auto simp: valid_ref_def)
next
  assume "\<exists>fi ri. valid_ref h (fi, ri) \<and> d \<in> set (room_devices (floor_rooms (h ! fi) ! ri))"
  then obtain fi ri where v: "valid_ref h (fi, ri)"
    and m: "d \<in> set (room_devices (floor_rooms (h ! fi) ! ri))"
    by blast
  from v have "h ! fi \<in> set h" "floor_rooms (h ! fi) ! ri \<in> set (floor_rooms (h ! fi))"
    by (simp_all add: valid_ref_def)
  with m show "d \<in> set (get_devices h)"
    by (auto simp: get_devices_def)
qed

lemma nth_update_at:
  "j < length h \<Longrightarrow> (h[i := f]) ! j = (if i = j then f else h ! j)"
  by (cases "i = j") simp_all

lemma valid_ref_update_room: "valid_ref (update_room h ref g) r = valid_ref h r"
  by (cases ref; cases r) (auto simp: update_room_def valid_ref_def nth_update_at split: if_splits)

lemma valid_ref_register_room:
  "valid_ref h r \<Longrightarrow> valid_ref (fst (register_room h fi a n)) r"
  by (cases r) (auto simp: register_room_def valid_ref_def nth_update_at)

lemma valid_ref_new_room:
  "fi < length h \<Longrightarrow> valid_ref (fst (register_room h fi a n)) (snd (register_room h fi a n))"
  by (auto simp: register_room_def valid_ref_def)

lemma update_room_keeps:
  assumes g: "\<And>r. set (room_devices r) \<subseteq> set (room_devices (g r))"
    and d: "d \<in> set (get_devices h)"
  shows "d \<in> set (get_devices (update_room h ref g))"
proof -
  from d obtain fi ri where v: "valid_ref h (fi, ri)"
    and m: "d \<in> set (room_devices (floor_rooms (h ! fi) ! ri))"
    by (auto simp: in_get_devices)
  obtain fj rj where ref: "ref = (fj, rj)" by (cases ref)
  have "valid_ref (update_room h ref g) (fi, ri)"
    using v by (simp add: valid_ref_update_room)
  moreover have "d \<in> set (room_devices (floor_rooms (update_room h ref g ! fi) ! ri))"
    using v m g [of "floor_rooms (h ! fi) ! ri"]
    by (auto simp: ref update_room_def valid_ref_def nth_update_at)
  ultimately show ?thesis by (auto simp: in_get_devices)
qed

lemma register_device_keeps:
  "d \<in> set (get_devices h) \<Longrightarrow> d \<in> set (get_devices (register_device h ref dev))"
  unfolding register_device_def by (rule update_room_keeps) auto

lemma register_device_adds:
  assumes "valid_ref h ref"
  shows "dev \<in> set (get_devices (register_device h ref dev))"
proof -
  obtain fi ri where ref: "ref = (fi, ri)" by (cases ref)
  have "valid_ref (register_device h ref dev) (fi, ri)"
    using assms by (simp add: register_device_def valid_ref_update_room ref)
  moreover have
    "dev \<in> set (room_devices (floor_rooms (register_device h ref dev ! fi) ! ri))"
    using assms by (simp add: ref register_device_def update_room_def valid_ref_def)
  ultimately show ?thesis by (auto simp: in_get_devices)
qed

lemma valid_ref_register_device: "valid_ref (register_device h ref dev) r = valid_ref h r"
  by (simp add: register_device_def valid_ref_update_room)

lemma py_index_less: "py_index n k = Some fi \<Longrightarrow> fi < n"
  by (auto simp: py_index_def Let_def split: if_splits)

lemma load_rooms_valid:
  "load_rooms ts h rd = Inr (h', rd') \<Longrightarrow> (\<And>k r. rd k = Some r \<Longrightarrow> valid_ref h r) \<Longrightarrow>
     rd' k = Some r \<Longrightarrow> valid_ref h' r"
proof (induction ts arbitrary: h rd)
  case Nil
  then show ?case by auto
next
  case (Cons t ts)
  from Cons.prems(1) obtain fi where fi: "py_index (length h) (r_floor t - 1) = Some fi"
    by (auto split: option.splits)
  obtain h1 ref where reg: "register_room h fi (r_area t) (r_name t) = (h1, ref)"
    by (cases "register_room h fi (r_area t) (r_name t)")
  let ?h2 = "update_room h1 ref (\<lambda>r. r\<lparr>db_id := Some (r_id t)\<rparr>)"
  from Cons.prems(1) fi reg have
    rec: "load_rooms ts ?h2 (rd(r_id t \<mapsto> ref)) = Inr (h', rd')"
    by simp
  have new: "valid_ref h1 ref"
    using valid_ref_new_room [OF py_index_less [OF fi], of "r_area t" "r_name t"] reg by simp
  have old: "\<And>k r. rd k = Some r \<Longrightarrow> valid_ref h1 r"
    using valid_ref_register_room [of h _ fi "r_area t" "r_name t"] reg Cons.prems(2)
    by fastforce
  have "\<And>k r. (rd(r_id t \<mapsto> ref)) k = Some r \<Longrightarrow> valid_ref ?h2 r"
    using new old by (auto simp: valid_ref_update_room split: if_splits)
  from Cons.IH [OF rec this Cons.prems(3)] show ?case .
qed

lemma load_devices_contains:
  "load_devices rd ts h = Inr h' \<Longrightarrow> (\<And>k r. rd k = Some r \<Longrightarrow> valid_ref h r) \<Longrightarrow>
     (d \<in> set (get_devices h) \<or> (\<exists>t\<in>set ts. device_of_tuple t = Some d)) \<Longrightarrow>
     d \<in> set (get_devices h')"
proof (induction ts arbitrary: h)
  case Nil
  then show ?case by simp
next
  case (Cons t ts)
  from Cons.prems(1) obtain ref where ref: "rd (d_room t) = Some ref"
    by (auto split: option.splits)
  show ?case
  proof (cases "device_of_tuple t")
    case None
    with Cons.prems ref have "load_devices rd ts h = Inr h'" by simp
    moreover from None Cons.prems(3)
    have "d \<in> set (get_devices h) \<or> (\<exists>t\<in>set ts. device_of_tuple t = Some d)" by auto
    ultimately show ?thesis using Cons.IH Cons.prems(2) by blast
  next
    case (Some dev)
    let ?h1 = "register_device h ref dev"
    from Some Cons.prems ref have rec: "load_devices rd ts ?h1 = Inr h'" by simp
    have v: "\<And>k r. rd k = Some r \<Longrightarrow> valid_ref ?h1 r"
      using Cons.prems(2) by (simp add: valid_ref_register_device)
    have "d \<in> set (get_devices ?h1) \<or> (\<exists>t\<in>set ts. device_of_tuple t = Some d)"
      using Cons.prems(3) Some register_device_keeps [of d h ref dev]
        register_device_adds [OF Cons.prems(2) [OF ref], of dev]
      by auto
    from Cons.IH [OF rec v this] show ?thesis .
  qed
qed

lemma update_room_devices_subset:
  assumes g: "\<And>r. set (room_devices (g r)) \<subseteq> set (room_devices r) \<union> D"
    and d: "d \<in> set (get_devices (update_room h ref g))"
  shows "d \<in> set (get_devices h) \<union> D"
proof -
  obtain fj rj where ref: "ref = (fj, rj)" by (cases ref)
  from d obtain fi ri where v: "valid_ref h (fi, ri)"
    and m: "d \<in> set (room_devices (floor_rooms (update_room h ref g ! fi) ! ri))"
    by (auto simp: in_get_devices valid_ref_update_room)
  show ?thesis
  proof (cases "fi = fj \<and> ri = rj")
    case True
    with v m have "d \<in> set (room_devices (g (floor_rooms (h ! fi) ! ri)))"
      by (simp add: ref update_room_def valid_ref_def)
    with g have "d \<in> set (room_devices (floor_rooms (h ! fi) ! ri)) \<union> D" by blast
    with v show ?thesis by (auto simp: in_get_devices)
  next
    case False
    with v m have "d \<in> set (room_devices (floor_rooms (h ! fi) ! ri))"
      by (auto simp: ref update_room_def valid_ref_def nth_update_at split: if_splits)
    with v show ?thesis by (auto simp: in_get_devices)
  qed
qed

lemma register_device_devices_subset:
  "d \<in> set (get_devices (register_device h ref dev)) \<Longrightarrow> d \<in> set (get_devices h) \<or> d = dev"
  using update_room_devices_subset
    [of "\<lambda>r. r\<lparr>room_devices := room_devices r @ [dev]\<rparr>" "{dev}" d h ref]
  by (auto simp: register_device_def)

lemma register_room_devices_subset:
  assumes "d \<in> set (get_devices (fst (register_room h fi a n)))"
  shows "d \<in> set (get_devices h)"
proof -
  let ?h = "fst (register_room h fi a n)"
  from assms obtain fk rk where v: "valid_ref ?h (fk, rk)"
    and m: "d \<in> set (room_devices (floor_rooms (?h ! fk) ! rk))"
    by (auto simp: in_get_devices)
  from v have fk: "fk < length h" by (simp add: valid_ref_def register_room_def)
  show ?thesis
  proof (cases "fk = fi")
    case True
    with v fk have rk: "rk < Suc (length (floor_rooms (h ! fi)))"
      by (simp add: valid_ref_def register_room_def)
    show ?thesis
    proof (cases "rk = length (floor_rooms (h ! fi))")
      case True
      with \<open>fk = fi\<close> fk m show ?thesis by (simp add: register_room_def)
    next
      case False
      with rk have lt: "rk < length (floor_rooms (h ! fi))" by simp
      with \<open>fk = fi\<close> fk m have "d \<in> set (room_devices (floor_rooms (h ! fi) ! rk))"
        by (simp add: register_room_def nth_append)
      with \<open>fk = fi\<close> fk lt show ?thesis by (auto simp: in_get_devices valid_ref_def)
    qed
  next
    case False
    with v fk m have "valid_ref h (fk, rk)"
      and "d \<in> set (room_devices (floor_rooms (h ! fk) ! rk))"
      by (simp_all add: valid_ref_def register_room_def)
    then show ?thesis by (auto simp: in_get_devices)
  qed
qed

lemma load_rooms_devices_subset:
  "load_rooms ts h rd = Inr (h', rd') \<Longrightarrow> d \<in> set (get_devices h') \<Longrightarrow>
     d \<in> set (get_devices h)"
proof (induction ts arbitrary: h rd)
  case Nil
  then show ?case by simp
next
  case (Cons t ts)
  from Cons.prems(1) obtain fi where fi: "py_index (length h) (r_floor t - 1) = Some fi"
    by (auto split: option.splits)
  obtain h1 ref where reg: "register_room h fi (r_area t) (r_name t) = (h1, ref)"
    by (cases "register_room h fi (r_area t) (r_name t)")
  let ?h2 = "update_room h1 ref (\<lambda>r. r\<lparr>db_id := Some (r_id t)\<rparr>)"
  from Cons.prems(1) fi reg have
    rec: "load_rooms ts ?h2 (rd(r_id t \<mapsto> ref)) = Inr (h', rd')"
    by simp
  from Cons.IH [OF rec Cons.prems(2)] have "d \<in> set (get_devices ?h2)" .
  then have "d \<in> set (get_devices h1)"
    using update_room_devices_subset [of "\<lambda>r. r\<lparr>db_id := Some (r_id t)\<rparr>" "{}" d h1 ref]
    by simp
  then show ?case
    using register_room_devices_subset [of d h fi "r_area t" "r_name t"] reg by simp
qed

lemma get_devices_create_floors: "get_devices (create_floors n) = []"
  by (simp add: create_floors_eq get_devices_def comp_def)

lemma load_devices_devices_subset:
  "load_devices rd ts h = Inr h' \<Longrightarrow> d \<in> set (get_devices h') \<Longrightarrow>
     d \<in> set (get_devices h) \<or> (\<exists>t\<in>set ts. device_of_tuple t = Some d)"
proof (induction ts arbitrary: h)
  case Nil
  then show ?case by simp
next
  case (Cons t ts)
  from Cons.prems(1) obtain ref where ref: "rd (d_room t) = Some ref"
    by (auto split: option.splits)
  show ?case
  proof (cases "device_of_tuple t")
    case None
    with Cons.prems ref have "load_devices rd ts h = Inr h'" by simp
    from Cons.IH [OF this Cons.prems(2)] show ?thesis by auto
  next
    case (Some dev)
    with Cons.prems ref have "load_devices rd ts (register_device h ref dev) = Inr h'" by simp
    from Cons.IH [OF this Cons.prems(2)]
    show ?thesis using Some register_device_devices_subset [of d h ref dev] by auto
  qed
qed

section \<open>Restoring the actuator states\<close>

lemma map_result_sets:
  "map_result g xs = Inr ys \<Longrightarrow>
     (\<forall>x\<in>set xs. \<exists>y\<in>set ys. g x = Inr y) \<and> (\<forall>y\<in>set ys. \<exists>x\<in>set xs. g x = Inr y)"
proof (induction xs arbitrary: ys)
  case Nil
  then show ?case by simp
next
  case (Cons x xs)
  then show ?case by (fastforce split: sum.splits)
qed

lemma map_result_ok:
  "\<forall>x\<in>set xs. \<exists>y. g x = Inr y \<Longrightarrow> \<exists>ys. map_result g xs = Inr ys"
proof (induction xs)
  case Nil
  then show ?case by simp
next
  case (Cons x xs)
  then show ?case by (fastforce split: sum.splits)
qed

lemma map_result_error: "map_result g xs = Inl e \<Longrightarrow> \<exists>x\<in>set xs. g x = Inl e"
proof (induction xs)
  case Nil
  then show ?case by simp
next
  case (Cons x xs)
  then show ?case by (auto split: sum.splits)
qed

lemma map_result_keeps:
  "map_result g xs = Inr ys \<Longrightarrow> (\<And>x y. g x = Inr y \<Longrightarrow> k y = k x) \<Longrightarrow> map k ys = map k xs"
proof (induction xs arbitrary: ys)
  case Nil
  then show ?case by simp
next
  case (Cons x xs)
  then show ?case by (fastforce split: sum.splits)
qed

lemma restore_floor_level: "restore_floor q s f = Inr f' \<Longrightarrow> level f' = level f"
  by (auto simp: restore_floor_def split: sum.splits)

lemma restore_states_levels: "restore_states q s h = Inr h' \<Longrightarrow> map level h' = map level h"
  unfolding restore_states_def by (erule map_result_keeps) (rule restore_floor_level)

lemma in_get_devices_rooms:
  "d \<in> set (get_devices h) \<longleftrightarrow>
     (\<exists>f\<in>set h. \<exists>r\<in>set (floor_rooms f). d \<in> set (room_devices r))"
  by (auto simp: get_devices_def)

lemma restore_states_forward:
  assumes "restore_states q s h = Inr h'" and "d \<in> set (get_devices h)"
  shows "\<exists>d'\<in>set (get_devices h'). restore_state q s d = Inr d'"
proof -
  from assms(2) obtain f r where f: "f \<in> set h" and r: "r \<in> set (floor_rooms f)"
    and d: "d \<in> set (room_devices r)"
    by (auto simp: in_get_devices_rooms)
  from assms(1) f obtain f' where f': "f' \<in> set h'" "restore_floor q s f = Inr f'"
    using map_result_sets [of "restore_floor q s" h h'] by (auto simp: restore_states_def)
  then obtain rs where rs: "map_result (restore_room q s) (floor_rooms f) = Inr rs"
    "floor_rooms f' = rs"
    by (auto simp: restore_floor_def split: sum.splits)
  with r obtain r' where r': "r' \<in> set rs" "restore_room q s r = Inr r'"
    using map_result_sets [of "restore_room q s" "floor_rooms f" rs] by auto
  then obtain ds where ds: "map_result (restore_state q s) (room_devices r) = Inr ds"
    "room_devices r' = ds"
    by (auto simp: restore_room_def split: sum.splits)
  with d obtain d' where "d' \<in> set ds" "restore_state q s d = Inr d'"
    using map_result_sets [of "restore_state q s" "room_devices r" ds] by auto
  with f' rs r' ds show ?thesis by (auto simp: in_get_devices_rooms)
qed

lemma restore_states_ok:
  assumes "\<forall>d\<in>set (get_devices h). \<exists>d'. restore_state q s d = Inr d'"
  shows "\<exists>h'. restore_states q s h = Inr h'"
proof -
  have "\<forall>f\<in>set h. \<exists>f'. restore_floor q s f = Inr f'"
  proof
    fix f assume f: "f \<in> set h"
    have "\<forall>r\<in>set (floor_rooms f). \<exists>r'. restore_room q s r = Inr r'"
    proof
      fix r assume r: "r \<in> set (floor_rooms f)"
      with f assms have "\<forall>d\<in>set (room_devices r). \<exists>d'. restore_state q s d = Inr d'"
        by (auto simp: in_get_devices_rooms)
      then obtain ds where "map_result (restore_state q s) (room_devices r) = Inr ds"
        using map_result_ok by blast
      then show "\<exists>r'. restore_room q s r = Inr r'" by (simp add: restore_room_def)
    qed
    then obtain rs where "map_result (restore_room q s) (floor_rooms f) = Inr rs"
      using map_result_ok by blast
    then show "\<exists>f'. restore_floor q s f = Inr f'" by (simp add: restore_floor_def)
  qed
  then show ?thesis unfolding restore_states_def by (rule map_result_ok)
qed

lemma restore_state_error:
  "restore_state q s d = Inl e \<Longrightarrow> e = SqliteError \<or> e = ValueError"
  by (auto simp: restore_state_def split: if_splits fetched.splits)

lemma restore_states_error:
  assumes "restore_states q s h = Inl e"
  shows "e = SqliteError \<or> e = ValueError"
proof -
  from assms obtain f where "restore_floor q s f = Inl e"
    using map_result_error [of "restore_floor q s" h e] by (auto simp: restore_states_def)
  then have "map_result (restore_room q s) (floor_rooms f) = Inl e"
    by (auto simp: restore_floor_def split: sum.splits)
  then obtain r where "restore_room q s r = Inl e"
    using map_result_error by blast
  then have "map_result (restore_state q s) (room_devices r) = Inl e"
    by (auto simp: restore_room_def split: sum.splits)
  then obtain d where "restore_state q s d = Inl e"
    using map_result_error by blast
  then show ?thesis by (rule restore_state_error)
qed

lemma cell_cases: "cell v = Null \<or> (\<exists>x. cell v = Number x)"
  by (cases v) simp_all

lemma restore_state_safe:
  assumes "is_actuator d \<longrightarrow> splice_safe (dev_id (info_of d))"
  shows "\<exists>d'. restore_state q s d = Inr d'"
proof (cases "is_actuator d")
  case False
  then show ?thesis by (simp add: restore_state_def)
next
  case True
  with assms have safe: "splice_safe (dev_id (info_of d))" by simp
  show ?thesis
  proof (cases "find (\<lambda>r. s_device r = dev_id (info_of d)) (db_states s)")
    case None
    with True safe show ?thesis by (simp add: restore_state_def fetch_state_def)
  next
    case (Some r)
    from cell_cases [of "s_state r"] show ?thesis
    proof
      assume "cell (s_state r) = Null"
      with True safe Some show ?thesis by (simp add: restore_state_def fetch_state_def)
    next
      assume "\<exists>x. cell (s_state r) = Number x"
      then obtain x where "cell (s_state r) = Number x" ..
      with True safe Some show ?thesis by (simp add: restore_state_def fetch_state_def)
    qed
  qed
qed

section \<open>The example database\<close>

lemma load_demo: "load_smarthouse_deep q demo_db = Inr demo_house"
  by (simp add: load_smarthouse_deep_def demo_db_def demo_house_def create_floors_def
      register_floor_def py_index_def register_room_def update_room_def register_device_def
      device_of_tuple_def restore_states_def restore_floor_def restore_room_def
      restore_state_def fetch_state_def splice_safe_def turn_on_def turn_off_def
      new_info_def upt_rec)

section \<open>Loading the structure\<close>

subsection \<open>No rooms\<close>

text \<open>
  Claim C3, as the code has it. With no row in \<open>rooms\<close>, \<open>SELECT MAX(floor)\<close> yields
  NULL, \<open>no_floors\<close> is \<open>None\<close> and \<open>range(0, None)\<close> raises Python's \<open>TypeError\<close>. The
  repository defines no error of its own for an empty structure and makes no check for
  it, so the failure the caller sees is this \<open>TypeError\<close>. On the database without any row
  the loader ends in \<open>TypeError\<close>.
\<close>

theorem load_without_rooms_counterexample:
  "load_smarthouse_deep demo_sqlite empty_db = Inl TypeError"
  by (simp add: load_smarthouse_deep_def empty_db_def)

text \<open>
  Claim C3, amended: if \<open>rooms\<close> holds no row, \<open>load_smarthouse_deep\<close> returns no house;
  whatever the other relations hold, it fails with the \<open>TypeError\<close> of \<open>range(0, None)\<close>.
\<close>

theorem load_without_rooms:
  "db_rooms s = [] \<Longrightarrow> load_smarthouse_deep q s = Inl TypeError"
  by (simp add: load_smarthouse_deep_def)

theorem load_without_rooms_witness:
  "db_rooms no_rooms_db = [] \<and> db_devices no_rooms_db \<noteq> [] \<and>
   load_smarthouse_deep demo_sqlite no_rooms_db = Inl TypeError"
proof -
  have h: "db_rooms no_rooms_db = []" by (simp add: no_rooms_db_def)
  have "db_devices no_rooms_db \<noteq> []" by (simp add: no_rooms_db_def demo_db_def)
  with h load_without_rooms [OF h, of demo_sqlite] show ?thesis by simp
qed

subsection \<open>Floors\<close>

lemma loaded_levels:
  assumes "load_smarthouse_deep q s = Inr h" and "sql_max (map r_floor (db_rooms s)) = Some n"
  shows "map level h = [1..n]"
proof -
  from assms obtain h0 rd h1 where
    a: "load_rooms (db_rooms s) (create_floors n) Map.empty = Inr (h0, rd)"
    and b: "load_devices rd (db_devices s) h0 = Inr h1"
    and c: "restore_states q s h1 = Inr h"
    by (auto simp: load_smarthouse_deep_def split: option.splits sum.splits prod.splits)
  from load_rooms_Inr [OF a] load_devices_levels [OF b] restore_states_levels [OF c]
  show ?thesis by (simp add: levels_create_floors)
qed

text \<open>
  The floors and rooms load exactly when the maximum floor number \<open>N\<close> is positive and
  every floor number lies above \<open>-N\<close>: the index \<open>floor - 1\<close> into the list of \<open>N\<close> floors
  is then in range, counted from the end when it is negative.
\<close>

lemma py_index_floor:
  assumes "f \<le> n"
  shows "py_index (nat n) (f - 1) \<noteq> None \<longleftrightarrow> 0 < n \<and> - n < f"
  using assms by (auto simp: py_index_def Let_def)

lemma load_rooms_needs_index:
  "load_rooms ts h rd = Inr p \<Longrightarrow> \<forall>t\<in>set ts. py_index (length h) (r_floor t - 1) \<noteq> None"
proof (induction ts arbitrary: h rd)
  case Nil
  then show ?case by simp
next
  case (Cons t ts)
  from Cons.prems obtain fi where fi: "py_index (length h) (r_floor t - 1) = Some fi"
    by (auto split: option.splits)
  obtain h1 ref where reg: "register_room h fi (r_area t) (r_name t) = (h1, ref)"
    by (cases "register_room h fi (r_area t) (r_name t)")
  then have len: "length h1 = length h"
    using length_register_room [of h fi "r_area t" "r_name t"] by simp
  from Cons.prems fi reg have
    "load_rooms ts (update_room h1 ref (\<lambda>r. r\<lparr>db_id := Some (r_id t)\<rparr>))
       (rd(r_id t \<mapsto> ref)) = Inr p"
    by simp
  from Cons.IH [OF this] fi len show ?case by (simp add: length_update_room)
qed

lemma rooms_phase:
  assumes "ts \<noteq> []"
  shows "(\<exists>p. load_rooms ts (create_floors (Max (r_floor ` set ts))) rd0 = Inr p) \<longleftrightarrow>
           0 < Max (r_floor ` set ts) \<and> (\<forall>r\<in>set ts. - Max (r_floor ` set ts) < r_floor r)"
proof -
  let ?n = "Max (r_floor ` set ts)"
  have le: "r_floor t \<le> ?n" if "t \<in> set ts" for t using that by simp
  have ix: "(\<forall>t\<in>set ts. py_index (length (create_floors ?n)) (r_floor t - 1) \<noteq> None) \<longleftrightarrow>
              0 < ?n \<and> (\<forall>r\<in>set ts. - ?n < r_floor r)"
  proof
    assume a: "\<forall>t\<in>set ts. py_index (length (create_floors ?n)) (r_floor t - 1) \<noteq> None"
    from assms obtain t where t: "t \<in> set ts" by (cases ts) auto
    with a le [OF t] have "0 < ?n"
      using py_index_floor [of "r_floor t" ?n] by (simp add: length_create_floors)
    moreover have "\<forall>r\<in>set ts. - ?n < r_floor r"
      using a le py_index_floor by (simp add: length_create_floors)
    ultimately show "0 < ?n \<and> (\<forall>r\<in>set ts. - ?n < r_floor r)" by simp
  next
    assume "0 < ?n \<and> (\<forall>r\<in>set ts. - ?n < r_floor r)"
    then show "\<forall>t\<in>set ts. py_index (length (create_floors ?n)) (r_floor t - 1) \<noteq> None"
      using le py_index_floor by (simp add: length_create_floors)
  qed
  show ?thesis
  proof
    assume "\<exists>p. load_rooms ts (create_floors ?n) rd0 = Inr p"
    then obtain p where "load_rooms ts (create_floors ?n) rd0 = Inr p" ..
    from load_rooms_needs_index [OF this] ix
    show "0 < ?n \<and> (\<forall>r\<in>set ts. - ?n < r_floor r)" by simp
  next
    assume "0 < ?n \<and> (\<forall>r\<in>set ts. - ?n < r_floor r)"
    with ix have "\<forall>t\<in>set ts. py_index (length (create_floors ?n)) (r_floor t - 1) \<noteq> None"
      by simp
    from load_rooms_ok [OF this, of rd0]
    show "\<exists>p. load_rooms ts (create_floors ?n) rd0 = Inr p" by auto
  qed
qed

lemma device_of_tuple_id:
  "device_of_tuple t = Some d \<Longrightarrow>
     dev_id (info_of d) = d_id t \<and> (is_actuator d \<longrightarrow> d_category t = ''actuator'')"
  by (auto simp: device_of_tuple_def new_info_def split: if_splits)

lemma loaded_before_restore:
  assumes "load_rooms (db_rooms s) (create_floors n) Map.empty = Inr (h0, rd)"
    and "load_devices rd (db_devices s) h0 = Inr h1"
    and "d \<in> set (get_devices h1)"
  shows "\<exists>t\<in>set (db_devices s). device_of_tuple t = Some d"
proof -
  have "d \<notin> set (get_devices h0)"
    using load_rooms_devices_subset [OF assms(1), of d] by (auto simp: get_devices_create_floors)
  with load_devices_devices_subset [OF assms(2,3)] show ?thesis by simp
qed

text \<open>
  Claim C9, as the code has it. The example database with a device row that refers to
  no room has rooms, with the maximum floor number 3, and the loader returns no house
  for it: the lookup of the room raises \<open>KeyError\<close>.
\<close>

theorem load_floors_counterexample:
  "db_rooms dangling_db \<noteq> [] \<and> load_smarthouse_deep demo_sqlite dangling_db = Inl KeyError"
  by (simp add: load_smarthouse_deep_def dangling_db_def demo_db_def create_floors_def
      register_floor_def py_index_def register_room_def update_room_def register_device_def
      device_of_tuple_def new_info_def upt_rec)

text \<open>
  Claim C9, amended. Let the \<open>rooms\<close> relation be non-empty and \<open>N\<close> its maximum floor
  number. Every house \<open>load_smarthouse_deep\<close> returns has exactly \<open>N\<close> floors, with the
  levels \<open>1, ..., N\<close> in ascending order, whether or not a room row refers to a level. The
  loader returns a house only if \<open>N\<close> is positive, every floor number lies above \<open>-N\<close> and
  every device row refers to a stored room; and under these conditions it does return
  one when no id of an actuator row holds a quote or NUL character.
\<close>

theorem load_floors_one_to_max:
  assumes "db_rooms s \<noteq> []"
  shows "(\<forall>h. load_smarthouse_deep q s = Inr h \<longrightarrow>
            map level h = [1..Max (r_floor ` set (db_rooms s))] \<and>
            int (length h) = Max (r_floor ` set (db_rooms s)) \<and>
            0 < Max (r_floor ` set (db_rooms s)) \<and>
            (\<forall>r\<in>set (db_rooms s). - Max (r_floor ` set (db_rooms s)) < r_floor r) \<and>
            (\<forall>d\<in>set (db_devices s). d_room d \<in> r_id ` set (db_rooms s))) \<and>
         (0 < Max (r_floor ` set (db_rooms s)) \<and>
          (\<forall>r\<in>set (db_rooms s). - Max (r_floor ` set (db_rooms s)) < r_floor r) \<and>
          (\<forall>d\<in>set (db_devices s). d_room d \<in> r_id ` set (db_rooms s)) \<and>
          (\<forall>d\<in>set (db_devices s). d_category d = ''actuator'' \<longrightarrow> splice_safe (d_id d)) \<longrightarrow>
            (\<exists>h. load_smarthouse_deep q s = Inr h))"
proof (intro conjI allI impI)
  let ?n = "Max (r_floor ` set (db_rooms s))"
  from assms have mx: "sql_max (map r_floor (db_rooms s)) = Some ?n"
    using sql_max_Max [of "map r_floor (db_rooms s)"] by simp
  {
    fix h assume h: "load_smarthouse_deep q s = Inr h"
    from loaded_levels [OF h mx] show lv: "map level h = [1..?n]" .
    from h mx obtain h0 rd h1 where
      a: "load_rooms (db_rooms s) (create_floors ?n) Map.empty = Inr (h0, rd)"
      and b: "load_devices rd (db_devices s) h0 = Inr h1"
      by (auto simp: load_smarthouse_deep_def split: sum.splits prod.splits)
    from a rooms_phase [OF assms, of Map.empty]
    show pos: "0 < ?n" and "\<forall>r\<in>set (db_rooms s). - ?n < r_floor r" by blast+
    from lv have "length h = length [1..?n]" by (metis length_map)
    with pos show "int (length h) = ?n" by simp
    from load_rooms_Inr [OF a] have dm: "dom rd = r_id ` set (db_rooms s)" by simp
    show "\<forall>d\<in>set (db_devices s). d_room d \<in> r_id ` set (db_rooms s)"
    proof (rule ccontr)
      assume "\<not> (\<forall>d\<in>set (db_devices s). d_room d \<in> r_id ` set (db_rooms s))"
      with dm have "\<exists>t\<in>set (db_devices s). d_room t \<notin> dom rd" by simp
      from load_devices_dangling [OF this, of h0] b show False by simp
    qed
  }
  assume wf: "0 < ?n \<and> (\<forall>r\<in>set (db_rooms s). - ?n < r_floor r) \<and>
              (\<forall>d\<in>set (db_devices s). d_room d \<in> r_id ` set (db_rooms s)) \<and>
              (\<forall>d\<in>set (db_devices s). d_category d = ''actuator'' \<longrightarrow> splice_safe (d_id d))"
  with rooms_phase [OF assms, of Map.empty] obtain h0 rd where
    a: "load_rooms (db_rooms s) (create_floors ?n) Map.empty = Inr (h0, rd)"
    by auto
  from load_rooms_Inr [OF a] have "dom rd = r_id ` set (db_rooms s)" by simp
  with wf have "\<forall>t\<in>set (db_devices s). d_room t \<in> dom rd" by simp
  then obtain h1 where b: "load_devices rd (db_devices s) h0 = Inr h1"
    using load_devices_ok by blast
  have "\<forall>d\<in>set (get_devices h1). \<exists>d'. restore_state q s d = Inr d'"
  proof
    fix d assume "d \<in> set (get_devices h1)"
    from loaded_before_restore [OF a b this] obtain t where
      "t \<in> set (db_devices s)" "device_of_tuple t = Some d" by blast
    with wf device_of_tuple_id [of t d]
    have "is_actuator d \<longrightarrow> splice_safe (dev_id (info_of d))" by auto
    then show "\<exists>d'. restore_state q s d = Inr d'" by (rule restore_state_safe)
  qed
  then obtain h where "restore_states q s h1 = Inr h"
    using restore_states_ok by blast
  with a b mx show "\<exists>h. load_smarthouse_deep q s = Inr h"
    by (simp add: load_smarthouse_deep_def)
qed

theorem load_floors_one_to_max_witness:
  "db_rooms demo_db \<noteq> [] \<and> Max (r_floor ` set (db_rooms demo_db)) = 3 \<and>
   list_all (\<lambda>r. - 3 < r_floor r) (db_rooms demo_db) \<and>
   list_all (\<lambda>d. d_room d \<in> r_id ` set (db_rooms demo_db)) (db_devices demo_db) \<and>
   list_all (\<lambda>d. splice_safe (d_id d)) (db_devices demo_db) \<and>
   load_smarthouse_deep demo_sqlite demo_db = Inr demo_house \<and>
   map level demo_house = [1, 2, 3] \<and> length demo_house = 3 \<and>
   floor_rooms (demo_house ! 1) = []"
proof -
  have h0: "db_rooms demo_db \<noteq> []" by (simp add: demo_db_def)
  have mx: "Max (r_floor ` set (db_rooms demo_db)) = 3" by (simp add: demo_db_def)
  have wf: "list_all (\<lambda>r. - 3 < r_floor r) (db_rooms demo_db) \<and>
            list_all (\<lambda>d. d_room d \<in> r_id ` set (db_rooms demo_db)) (db_devices demo_db) \<and>
            list_all (\<lambda>d. splice_safe (d_id d)) (db_devices demo_db)"
    by (simp add: demo_db_def splice_safe_def)
  then have "\<exists>h. load_smarthouse_deep demo_sqlite demo_db = Inr h"
    using load_floors_one_to_max [OF h0, of demo_sqlite] mx by (simp add: list_all_iff)
  have up: "[1..3::int] = [1, 2, 3]" by (simp add: upto_rec1)
  from load_floors_one_to_max [OF h0, of demo_sqlite] load_demo [of demo_sqlite] mx
  have "map level demo_house = [1..3]" and "int (length demo_house) = 3"
    by simp_all
  with h0 mx wf load_demo [of demo_sqlite] up show ?thesis by (simp add: demo_house_def)
qed

subsection \<open>Device rows that refer to no room\<close>

lemma dangling_outcome:
  assumes dg: "\<exists>d\<in>set (db_devices s). d_room d \<notin> r_id ` set (db_rooms s)"
    and ne: "db_rooms s \<noteq> []"
  shows "load_smarthouse_deep q s =
           (if 0 < Max (r_floor ` set (db_rooms s)) \<and>
               (\<forall>r\<in>set (db_rooms s). - Max (r_floor ` set (db_rooms s)) < r_floor r)
            then Inl KeyError else Inl IndexError)"
proof -
  let ?n = "Max (r_floor ` set (db_rooms s))"
  from ne have mx: "sql_max (map r_floor (db_rooms s)) = Some ?n"
    using sql_max_Max [of "map r_floor (db_rooms s)"] by simp
  show ?thesis
  proof (cases "load_rooms (db_rooms s) (create_floors ?n) Map.empty")
    case (Inl e)
    then have "e = IndexError" by (rule load_rooms_error)
    moreover from Inl rooms_phase [OF ne, of Map.empty]
    have "\<not> (0 < ?n \<and> (\<forall>r\<in>set (db_rooms s). - ?n < r_floor r))" by auto
    ultimately show ?thesis using Inl mx by (simp add: load_smarthouse_deep_def)
  next
    case (Inr p)
    obtain h0 rd where p: "p = (h0, rd)" by (cases p)
    from Inr rooms_phase [OF ne, of Map.empty]
    have ok: "0 < ?n \<and> (\<forall>r\<in>set (db_rooms s). - ?n < r_floor r)" by blast
    from load_rooms_Inr [OF Inr [unfolded p]] have "dom rd = r_id ` set (db_rooms s)" by simp
    with dg have "\<exists>t\<in>set (db_devices s). d_room t \<notin> dom rd" by simp
    then have "load_devices rd (db_devices s) h0 = Inl KeyError"
      by (rule load_devices_dangling)
    with Inr p mx ok show ?thesis by (simp add: load_smarthouse_deep_def)
  qed
qed

lemma no_dangling_no_KeyError:
  assumes "\<forall>d\<in>set (db_devices s). d_room d \<in> r_id ` set (db_rooms s)"
  shows "load_smarthouse_deep q s \<noteq> Inl KeyError"
proof
  assume k: "load_smarthouse_deep q s = Inl KeyError"
  then obtain n where n: "sql_max (map r_floor (db_rooms s)) = Some n"
    by (auto simp: load_smarthouse_deep_def split: option.splits)
  show False
  proof (cases "load_rooms (db_rooms s) (create_floors n) Map.empty")
    case (Inl e)
    then have "e = IndexError" by (rule load_rooms_error)
    with Inl n k show False by (simp add: load_smarthouse_deep_def)
  next
    case (Inr p)
    obtain h0 rd where p: "p = (h0, rd)" by (cases p)
    from load_rooms_Inr [OF Inr [unfolded p]] have "dom rd = r_id ` set (db_rooms s)" by simp
    with assms have "\<forall>t\<in>set (db_devices s). d_room t \<in> dom rd" by simp
    then obtain h1 where h1: "load_devices rd (db_devices s) h0 = Inr h1"
      using load_devices_ok by blast
    with Inr p n k have "restore_states q s h1 = Inl KeyError"
      by (simp add: load_smarthouse_deep_def)
    from restore_states_error [OF this] show False by simp
  qed
qed

text \<open>
  Claim C8, as the code has it. In the example database without its rooms every device
  row refers to a room id that is not stored, and loading fails, but with the
  \<open>TypeError\<close> of the missing floor count, before any device row is read.
\<close>

theorem dangling_device_counterexample:
  "(\<exists>d\<in>set (db_devices no_rooms_db). d_room d \<notin> r_id ` set (db_rooms no_rooms_db)) \<and>
   load_smarthouse_deep demo_sqlite no_rooms_db = Inl TypeError"
  by (auto simp: load_smarthouse_deep_def no_rooms_db_def demo_db_def)

text \<open>
  Claim C8, amended. A device row whose room id is the id of no room row is never
  dropped silently: \<open>load_smarthouse_deep\<close> fails and returns no house. The failure is the
  \<open>KeyError\<close> that the lookup \<open>room_dict[device_tuple[1]]\<close> raises for the missing id when
  the floors and rooms have loaded, that is when \<open>rooms\<close> is non-empty, its maximum floor
  number \<open>N\<close> is positive and every floor number lies above \<open>-N\<close>; it is the \<open>TypeError\<close>
  of the floor count when \<open>rooms\<close> is empty and the \<open>IndexError\<close> of the floor lookup
  otherwise. When every device row refers to a stored room, loading does not fail with
  \<open>KeyError\<close>.
\<close>

theorem dangling_device_fails:
  "((\<exists>d\<in>set (db_devices s). d_room d \<notin> r_id ` set (db_rooms s)) \<longrightarrow>
      (\<exists>e. load_smarthouse_deep q s = Inl e) \<and>
      (db_rooms s = [] \<longrightarrow> load_smarthouse_deep q s = Inl TypeError) \<and>
      (db_rooms s \<noteq> [] \<longrightarrow>
         load_smarthouse_deep q s =
           (if 0 < Max (r_floor ` set (db_rooms s)) \<and>
               (\<forall>r\<in>set (db_rooms s). - Max (r_floor ` set (db_rooms s)) < r_floor r)
            then Inl KeyError else Inl IndexError))) \<and>
   ((\<forall>d\<in>set (db_devices s). d_room d \<in> r_id ` set (db_rooms s)) \<longrightarrow>
      load_smarthouse_deep q s \<noteq> Inl KeyError)"
proof (intro conjI impI)
  assume dg: "\<exists>d\<in>set (db_devices s). d_room d \<notin> r_id ` set (db_rooms s)"
  show "\<exists>e. load_smarthouse_deep q s = Inl e"
  proof (cases "db_rooms s = []")
    case True
    then show ?thesis by (simp add: load_smarthouse_deep_def)
  next
    case False
    from dangling_outcome [OF dg False, of q] show ?thesis by (auto split: if_splits)
  qed
  show "load_smarthouse_deep q s = Inl TypeError" if "db_rooms s = []"
    using that by (simp add: load_smarthouse_deep_def)
  show "load_smarthouse_deep q s =
          (if 0 < Max (r_floor ` set (db_rooms s)) \<and>
              (\<forall>r\<in>set (db_rooms s). - Max (r_floor ` set (db_rooms s)) < r_floor r)
           then Inl KeyError else Inl IndexError)" if "db_rooms s \<noteq> []"
    using dg that by (rule dangling_outcome)
next
  assume "\<forall>d\<in>set (db_devices s). d_room d \<in> r_id ` set (db_rooms s)"
  then show "load_smarthouse_deep q s \<noteq> Inl KeyError" by (rule no_dangling_no_KeyError)
qed

theorem dangling_device_fails_witness:
  "(\<exists>d\<in>set (db_devices dangling_db). d_room d \<notin> r_id ` set (db_rooms dangling_db)) \<and>
   db_rooms dangling_db \<noteq> [] \<and> Max (r_floor ` set (db_rooms dangling_db)) = 3 \<and>
   list_all (\<lambda>r. - 3 < r_floor r) (db_rooms dangling_db) \<and>
   load_smarthouse_deep demo_sqlite dangling_db = Inl KeyError \<and>
   list_all (\<lambda>d. d_room d \<in> r_id ` set (db_rooms demo_db)) (db_devices demo_db) \<and>
   load_smarthouse_deep demo_sqlite demo_db \<noteq> Inl KeyError"
proof -
  have h1: "\<exists>d\<in>set (db_devices dangling_db). d_room d \<notin> r_id ` set (db_rooms dangling_db)"
    by (simp add: dangling_db_def demo_db_def)
  have h2: "db_rooms dangling_db \<noteq> [] \<and> Max (r_floor ` set (db_rooms dangling_db)) = 3 \<and>
            list_all (\<lambda>r. - 3 < r_floor r) (db_rooms dangling_db)"
    by (simp add: dangling_db_def demo_db_def)
  have h3: "list_all (\<lambda>d. d_room d \<in> r_id ` set (db_rooms demo_db)) (db_devices demo_db)"
    by (simp add: demo_db_def)
  from h1 h2 dangling_device_fails [of dangling_db demo_sqlite]
  have k: "load_smarthouse_deep demo_sqlite dangling_db = Inl KeyError"
    by (simp add: list_all_iff)
  from h3 dangling_device_fails [of demo_db demo_sqlite]
  have "load_smarthouse_deep demo_sqlite demo_db \<noteq> Inl KeyError"
    by (simp add: list_all_iff)
  with h1 h2 h3 k show ?thesis by blast
qed

subsection \<open>Heat pumps in the two reconstruction paths\<close>

lemma find_Some_mem: "find P xs = Some x \<Longrightarrow> x \<in> set xs"
  by (induction xs) (auto split: if_splits)

lemma restore_state_variant:
  "restore_state q s (ActuatorWithSensor i old) = Inr d \<Longrightarrow> \<exists>st. d = ActuatorWithSensor i st"
  by (auto simp: restore_state_def turn_on_def turn_off_def split: fetched.splits if_splits)

lemma loaded_contains:
  assumes "load_smarthouse_deep q s = Inr h" and "t \<in> set (db_devices s)"
    and "device_of_tuple t = Some d"
  shows "\<exists>d'\<in>set (get_devices h). restore_state q s d = Inr d'"
proof -
  from assms(1) obtain n h0 rd h1 where
    a: "load_rooms (db_rooms s) (create_floors n) Map.empty = Inr (h0, rd)"
    and b: "load_devices rd (db_devices s) h0 = Inr h1"
    and c: "restore_states q s h1 = Inr h"
    by (auto simp: load_smarthouse_deep_def split: option.splits sum.splits prod.splits)
  have v: "\<And>k r. rd k = Some r \<Longrightarrow> valid_ref h0 r"
    using load_rooms_valid [OF a] by simp
  have "d \<in> set (get_devices h1)"
  proof (rule load_devices_contains [OF b])
    show "valid_ref h0 r" if "rd k = Some r" for k r
      using that by (rule v)
    show "d \<in> set (get_devices h0) \<or> (\<exists>t\<in>set (db_devices s). device_of_tuple t = Some d)"
      using assms(2,3) by blast
  qed
  with c show ?thesis by (rule restore_states_forward)
qed

text \<open>
  Claim C10. Take a row of \<open>devices\<close> with category \<open>actuator\<close> and kind \<open>Heat Pump\<close>,
  the row the query of \<open>get_device_by_id\<close> finds for its id. \<open>get_device_by_id\<close> returns
  a plain \<open>Actuator\<close> for it. The loop of \<open>load_smarthouse_deep\<close> builds an
  \<open>ActuatorWithSensor\<close> from the same row, and every house the loader returns holds
  that \<open>ActuatorWithSensor\<close>. The two paths disagree on the variant.
\<close>

theorem heat_pump_variants_differ:
  assumes "find (\<lambda>d. d_id d = i) (db_devices s) = Some row"
    and "d_category row = ''actuator''" and "d_kind row = ''Heat Pump''"
  shows "get_device_by_id s i =
           Some (Actuator (new_info (d_id row) (d_product row) (d_supplier row) (d_kind row)) Off) \<and>
         device_of_tuple row =
           Some (ActuatorWithSensor
                   (new_info (d_id row) (d_product row) (d_supplier row) (d_kind row)) Off) \<and>
         (\<forall>h. load_smarthouse_deep q s = Inr h \<longrightarrow>
            (\<exists>st. ActuatorWithSensor
                     (new_info (d_id row) (d_product row) (d_supplier row) (d_kind row)) st
                   \<in> set (get_devices h)))"
proof (intro conjI allI impI)
  let ?i = "new_info (d_id row) (d_product row) (d_supplier row) (d_kind row)"
  from assms show "get_device_by_id s i = Some (Actuator ?i Off)"
    by (simp add: get_device_by_id_def)
  from assms(2,3) show dt: "device_of_tuple row = Some (ActuatorWithSensor ?i Off)"
    by (simp add: device_of_tuple_def)
  fix h assume h: "load_smarthouse_deep q s = Inr h"
  from assms(1) have "row \<in> set (db_devices s)" by (rule find_Some_mem)
  from loaded_contains [OF h this dt] obtain d' where
    "d' \<in> set (get_devices h)" "restore_state q s (ActuatorWithSensor ?i Off) = Inr d'"
    by blast
  with restore_state_variant [of q s ?i Off d']
  show "\<exists>st. ActuatorWithSensor ?i st \<in> set (get_devices h)" by auto
qed

theorem heat_pump_variants_differ_witness:
  "find (\<lambda>d. d_id d = ''hp1'') (db_devices demo_db) = Some (db_devices demo_db ! 2) \<and>
   d_category (db_devices demo_db ! 2) = ''actuator'' \<and>
   d_kind (db_devices demo_db ! 2) = ''Heat Pump'' \<and>
   get_device_by_id demo_db ''hp1'' =
     Some (Actuator (new_info ''hp1'' ''P3'' ''S'' ''Heat Pump'') Off) \<and>
   load_smarthouse_deep demo_sqlite demo_db = Inr demo_house \<and>
   (\<exists>st. ActuatorWithSensor (new_info ''hp1'' ''P3'' ''S'' ''Heat Pump'') st
            \<in> set (get_devices demo_house))"
proof -
  have h1: "find (\<lambda>d. d_id d = ''hp1'') (db_devices demo_db) = Some (db_devices demo_db ! 2)"
    by (simp add: demo_db_def)
  have h2: "d_category (db_devices demo_db ! 2) = ''actuator''" by (simp add: demo_db_def)
  have h3: "d_kind (db_devices demo_db ! 2) = ''Heat Pump''" by (simp add: demo_db_def)
  have row: "new_info (d_id (db_devices demo_db ! 2)) (d_product (db_devices demo_db ! 2))
               (d_supplier (db_devices demo_db ! 2)) (d_kind (db_devices demo_db ! 2)) =
             new_info ''hp1'' ''P3'' ''S'' ''Heat Pump''"
    by (simp add: demo_db_def)
  from heat_pump_variants_differ [OF h1 h2 h3, of demo_sqlite] load_demo [of demo_sqlite] h1 h2 h3
  show ?thesis unfolding row by blast
qed

subsection \<open>Decoding the stored state\<close>

text \<open>
  Claim C6, at an input where the code departs from it. The second actuator of the
  database has the id \<open>x' OR '1'='1\<close> and a row in \<open>states\<close> whose state is NULL, so the
  claim gives it the state \<open>Off\<close>. The loader splices the id into the statement text,
  the statement selects every row of \<open>states\<close>, and the device is loaded with the
  level 0.5 that is stored for \<open>a1\<close>.
\<close>

theorem quoted_id_reads_other_state:
  "map_option s_state (find (\<lambda>r. s_device r = or_id) (db_states or_db)) = Some None \<and>
   load_smarthouse_deep demo_sqlite or_db =
     Inr (one_room_house
            [Actuator (new_info ''a1'' ''P4'' ''S'' ''Smart Plug'') (OnWithLevel (1 / 2)),
             Actuator (new_info or_id ''P6'' ''S'' ''Smart Plug'') (OnWithLevel (1 / 2))])"
  by (simp add: load_smarthouse_deep_def or_db_def one_room_house_def create_floors_def
      register_floor_def py_index_def register_room_def update_room_def register_device_def
      device_of_tuple_def restore_states_def restore_floor_def restore_room_def
      restore_state_def fetch_state_def splice_safe_def turn_on_def turn_off_def
      new_info_def upt_rec or_id_def demo_sqlite_def)

section \<open>Actuator state in the \<open>devices\<close> relation\<close>

text \<open>
  Claim C5, at an input where the code departs from it. The actuator of the database
  has the id \<open>x' UNION SELECT state FROM devices WHERE id LIKE 'x%\<close> and is stored in
  \<open>states\<close> with the level 0.5. \<open>update_actuator_state\<close> leaves \<open>states\<close> as it is. But the
  loader splices the id into its statement text, and the statement reads the \<open>state\<close>
  column of \<open>devices\<close>: before the write the actuator is loaded \<open>Off\<close>, after writing
  \<open>True\<close> it is loaded \<open>On\<close>, the value just written, and never with the level 0.5 of
  \<open>states\<close>.
\<close>

theorem quoted_id_reads_written_state:
  "db_states (update_actuator_state union_db union_id True) = db_states union_db \<and>
   load_smarthouse_deep demo_sqlite union_db =
     Inr (one_room_house [Actuator (new_info union_id ''P7'' ''S'' ''Smart Plug'') Off]) \<and>
   load_smarthouse_deep demo_sqlite (update_actuator_state union_db union_id True) =
     Inr (one_room_house [Actuator (new_info union_id ''P7'' ''S'' ''Smart Plug'') On])"
  by (simp add: load_smarthouse_deep_def union_db_def one_room_house_def create_floors_def
      register_floor_def py_index_def register_room_def update_room_def register_device_def
      device_of_tuple_def restore_states_def restore_floor_def restore_room_def
      restore_state_def fetch_state_def splice_safe_def turn_on_def turn_off_def
      new_info_def upt_rec union_id_def or_id_def demo_sqlite_def update_actuator_state_def
      state_query_def first_of_union_def like_x_def)

lemma find_update_state:
  "find (\<lambda>d. d_id d = a) (map (\<lambda>d. if d_id d = a then d\<lparr>d_state := v\<rparr> else d) ts) =
     map_option (\<lambda>d. d\<lparr>d_state := v\<rparr>) (find (\<lambda>d. d_id d = a) ts)"
  by (induction ts) auto

lemma find_Some_iff_mem: "a \<in> d_id ` set ts \<Longrightarrow> \<exists>row. find (\<lambda>d. d_id d = a) ts = Some row"
  by (induction ts) auto

text \<open>
  Claim C4, as the code has it. \<open>update_actuator_state\<close> takes a Boolean and stores
  \<open>1 if new_state else 0\<close>: switching the plain actuator of the example off stores the
  number 0 in its \<open>state\<close> column, not NULL. No level reaches the column either, since the
  parameter is a Boolean.
\<close>

theorem actuator_state_off_counterexample:
  "map_option d_state
     (find (\<lambda>d. d_id d = ''a1'') (db_devices (update_actuator_state demo_db ''a1'' False))) =
     Some (Some 0) \<and>
   map_option d_state
     (find (\<lambda>d. d_id d = ''a1'') (db_devices (update_actuator_state demo_db ''a1'' False))) \<noteq>
     Some None"
  by (simp add: update_actuator_state_def demo_db_def)

text \<open>
  Claim C4, amended: writing and reading back through the repository round-trips
  Booleans. For a device with a row in \<open>devices\<close>, \<open>update_actuator_state\<close> stores 1 for
  \<open>True\<close> and 0 for \<open>False\<close> in the \<open>state\<close> column, and \<open>get_actuator_state\<close> then returns
  the Boolean that was written.
\<close>

theorem actuator_state_bool_roundtrip:
  assumes "a \<in> d_id ` set (db_devices s)"
  shows "get_actuator_state (update_actuator_state s a b) a = Some b \<and>
         map_option d_state (find (\<lambda>d. d_id d = a) (db_devices (update_actuator_state s a b))) =
           Some (Some (if b then 1 else 0))"
proof -
  from assms obtain row where "find (\<lambda>d. d_id d = a) (db_devices s) = Some row"
    using find_Some_iff_mem by blast
  then show ?thesis
    by (simp add: get_actuator_state_def update_actuator_state_def find_update_state)
qed

theorem actuator_state_bool_roundtrip_witness:
  "''a1'' \<in> d_id ` set (db_devices demo_db) \<and>
   get_actuator_state (update_actuator_state demo_db ''a1'' True) ''a1'' = Some True \<and>
   get_actuator_state (update_actuator_state demo_db ''a1'' False) ''a1'' = Some False"
proof -
  have h: "''a1'' \<in> d_id ` set (db_devices demo_db)" by (simp add: demo_db_def)
  from h actuator_state_bool_roundtrip [OF h, of True] actuator_state_bool_roundtrip [OF h, of False]
  show ?thesis by simp
qed

section \<open>Hours with humidity above the hourly average\<close>

lemma find_None_name: "n \<notin> r_name ` set rs \<Longrightarrow> find (\<lambda>r. r_name r = n) rs = None"
  by (induction rs) auto

lemma find_Some_name:
  "n \<in> r_name ` set rs \<Longrightarrow> \<exists>r. find (\<lambda>r. r_name r = n) rs = Some r \<and> r \<in> set rs \<and> r_name r = n"
  by (induction rs) auto

text \<open>
  Claim C7. For a room name that no row of \<open>rooms\<close> carries,
  \<open>calc_hours_with_humidity_above\<close> raises the \<open>ValueError\<close> of its explicit check
  (\<open>No room found with name ...\<close>), the failure the specification calls
  \<open>UnknownRoomError\<close>; it does not return a list. For a stored room the call never fails,
  and it returns the empty list when no humidity reading of the room has the date, in
  the sense of SQLite's \<open>date(ts)\<close>.
\<close>

theorem humidity_unknown_room:
  "(name \<notin> r_name ` set (db_rooms s) \<longrightarrow>
      calc_hours_with_humidity_above q s name date = Inl ValueError) \<and>
   (name \<in> r_name ` set (db_rooms s) \<longrightarrow>
      (\<exists>hours. calc_hours_with_humidity_above q s name date = Inr hours) \<and>
      ((\<forall>r\<in>set (db_rooms s). r_name r = name \<longrightarrow> humidity_rows q s (r_id r) date = []) \<longrightarrow>
         calc_hours_with_humidity_above q s name date = Inr []))"
proof (intro conjI impI)
  assume "name \<notin> r_name ` set (db_rooms s)"
  then show "calc_hours_with_humidity_above q s name date = Inl ValueError"
    by (simp add: calc_hours_with_humidity_above_def find_None_name)
next
  assume "name \<in> r_name ` set (db_rooms s)"
  then obtain r where "find (\<lambda>r. r_name r = name) (db_rooms s) = Some r"
    using find_Some_name by blast
  then show "\<exists>hours. calc_hours_with_humidity_above q s name date = Inr hours"
    by (simp add: calc_hours_with_humidity_above_def)
next
  assume "name \<in> r_name ` set (db_rooms s)"
    and e: "\<forall>r\<in>set (db_rooms s). r_name r = name \<longrightarrow> humidity_rows q s (r_id r) date = []"
  then obtain r where r: "find (\<lambda>r. r_name r = name) (db_rooms s) = Some r"
    "r \<in> set (db_rooms s)" "r_name r = name"
    using find_Some_name by blast
  with e have "humidity_rows q s (r_id r) date = []" by blast
  with r show "calc_hours_with_humidity_above q s name date = Inr []"
    by (simp add: calc_hours_with_humidity_above_def subquery_def grouped_hours_def)
qed

theorem humidity_unknown_room_witness:
  "''Garage'' \<notin> r_name ` set (db_rooms demo_db) \<and>
   calc_hours_with_humidity_above demo_sqlite demo_db ''Garage'' ''2024-01-27'' = Inl ValueError \<and>
   ''Attic'' \<in> r_name ` set (db_rooms demo_db) \<and>
   list_all (\<lambda>r. r_name r \<noteq> ''Attic'' \<or>
               humidity_rows demo_sqlite demo_db (r_id r) ''2024-01-27'' = [])
     (db_rooms demo_db) \<and>
   calc_hours_with_humidity_above demo_sqlite demo_db ''Attic'' ''2024-01-27'' = Inr []"
proof -
  have h1: "''Garage'' \<notin> r_name ` set (db_rooms demo_db)" by (simp add: demo_db_def)
  have h2: "''Attic'' \<in> r_name ` set (db_rooms demo_db)" by (simp add: demo_db_def)
  have h3: "\<forall>r\<in>set (db_rooms demo_db). r_name r = ''Attic'' \<longrightarrow>
              humidity_rows demo_sqlite demo_db (r_id r) ''2024-01-27'' = []"
    by (simp add: demo_db_def humidity_rows_def)
  then have h4: "list_all (\<lambda>r. r_name r \<noteq> ''Attic'' \<or>
                    humidity_rows demo_sqlite demo_db (r_id r) ''2024-01-27'' = [])
                   (db_rooms demo_db)"
    by (auto simp: list_all_iff)
  from h1 h2 h3
    humidity_unknown_room [of "''Garage''" demo_db demo_sqlite "''2024-01-27''"]
    humidity_unknown_room [of "''Attic''" demo_db demo_sqlite "''2024-01-27''"]
  have "calc_hours_with_humidity_above demo_sqlite demo_db ''Garage'' ''2024-01-27'' =
          Inl ValueError"
    and "calc_hours_with_humidity_above demo_sqlite demo_db ''Attic'' ''2024-01-27'' = Inr []"
    by blast+
  with h1 h2 h4 show ?thesis by blast
qed

lemma demo_timestamps:
  "plain_timestamp ''2024-01-27 10:00:00''" "plain_timestamp ''2024-01-27 14:00:00''"
  "plain_timestamp ''2024-01-27 10:10:00''" "plain_timestamp ''2024-01-27 10:20:00''"
  "plain_timestamp ''2024-01-27 10:30:00''" "plain_timestamp ''2024-01-27 10:40:00''"
  by (simp_all add: plain_timestamp_def is_digit_def digits_val_def days_in_month_def
      leap_year_def)

text \<open>
  Claim C1, at an input where the code departs from it. In the example the humidity
  sensor of the room \<open>Living\<close> has five readings in hour 10 of 2024-01-27: 10, 90, 91, 92
  and 92, with average 75. Four readings lie above the average, so hour 10 qualifies.
  The query keeps only the hours 07, 08, 09, 12 and 18 (the source comments on this
  list as a shortcut taken from the test), and the result is empty.
\<close>

theorem humidity_hour_10_not_reported:
  "length (filter (\<lambda>row. case row of (hour, v, a) \<Rightarrow>
             hour = Some ''10'' \<and> (case a of None \<Rightarrow> False | Some av \<Rightarrow> v > av))
          (subquery q demo_db 1 ''2024-01-27'')) = 4 \<and>
   calc_hours_with_humidity_above q demo_db ''Living'' ''2024-01-27'' = Inr []"
  by (simp add: calc_hours_with_humidity_above_def demo_db_def subquery_def humidity_rows_def
      avg_humidity_def sql_avg_def avg_of_def exact_mean_def strftime_H_def sql_date_def
      sql_eq_def demo_timestamps
      above_avg_def hour_list_def grouped_hours_def py_int_def degC_def)

section \<open>Average temperature per day\<close>

text \<open>
  Claim C2, at an input where the code departs from it. The temperature sensor of the
  room \<open>Living\<close> has the readings 20 and 22 on 2024-01-27, at 10:00 and 14:00. With both
  bounds set to \<open>2024-01-27\<close> the text comparison \<open>m.ts <= '2024-01-27'\<close> rejects both
  timestamps, which are longer than the bound, and the result is the empty dictionary;
  without the upper bound the day has the average 21.
\<close>

theorem until_date_day_excluded:
  "calc_avg_temperatures_in_room q demo_db ''Living'' (Some ''2024-01-27'') (Some ''2024-01-27'') =
     Map.empty \<and>
   calc_avg_temperatures_in_room q demo_db ''Living'' (Some ''2024-01-27'') None
     (Some ''2024-01-27'') = Some 21"
  by (simp add: calc_avg_temperatures_in_room_def temperature_rows_def demo_db_def
      from_ok_def until_ok_def strftime_Ymd_def demo_timestamps avg_of_def exact_mean_def
      degC_def)

section \<open>Device ids without a quote character\<close>

text \<open>
  The two departures above come from the device id that is spliced into the statement
  text. For an id without a quote character the loader decodes the state row of the
  device itself, and a write through \<open>update_actuator_state\<close> does not change what the
  loader returns.
\<close>

lemma restore_states_backward:
  assumes "restore_states q s h = Inr h'" and "d' \<in> set (get_devices h')"
  shows "\<exists>d\<in>set (get_devices h). restore_state q s d = Inr d'"
proof -
  from assms(2) obtain f' r' where f': "f' \<in> set h'" and r': "r' \<in> set (floor_rooms f')"
    and d': "d' \<in> set (room_devices r')"
    by (auto simp: in_get_devices_rooms)
  from assms(1) f' obtain f where f: "f \<in> set h" "restore_floor q s f = Inr f'"
    using map_result_sets [of "restore_floor q s" h h'] by (auto simp: restore_states_def)
  then have "map_result (restore_room q s) (floor_rooms f) = Inr (floor_rooms f')"
    by (auto simp: restore_floor_def split: sum.splits)
  with r' obtain r where r: "r \<in> set (floor_rooms f)" "restore_room q s r = Inr r'"
    using map_result_sets [of "restore_room q s" "floor_rooms f" "floor_rooms f'"] by auto
  then have "map_result (restore_state q s) (room_devices r) = Inr (room_devices r')"
    by (auto simp: restore_room_def split: sum.splits)
  with d' obtain d where d: "d \<in> set (room_devices r)" "restore_state q s d = Inr d'"
    using map_result_sets [of "restore_state q s" "room_devices r" "room_devices r'"] by auto
  from f(1) r(1) d(1) have "d \<in> set (get_devices h)"
    by (auto simp: in_get_devices_rooms)
  with d(2) show ?thesis by blast
qed

lemma restore_state_keeps:
  "restore_state q s d = Inr d' \<Longrightarrow> is_actuator d' = is_actuator d \<and> info_of d' = info_of d"
  by (cases d)
     (auto simp: restore_state_def turn_on_def turn_off_def split: fetched.splits if_splits)

lemma load_decodes_state_of_plain_id:
  assumes "load_smarthouse_deep q s = Inr h"
    and "dev \<in> set (get_devices h)"
    and "is_actuator dev"
    and "splice_safe (dev_id (info_of dev))"
    and "find (\<lambda>r. s_device r = dev_id (info_of dev)) (db_states s) = Some row"
  shows "state_of dev = Some (case s_state row of None \<Rightarrow> Off
           | Some v \<Rightarrow> if v = 1 then On else OnWithLevel v)"
proof -
  from assms(1) obtain h1 where "restore_states q s h1 = Inr h"
    by (auto simp: load_smarthouse_deep_def split: option.splits sum.splits prod.splits)
  from restore_states_backward [OF this assms(2)] obtain d where
    d: "restore_state q s d = Inr dev" by blast
  from restore_state_keeps [OF d] assms(3,4,5)
  have "is_actuator d" "splice_safe (dev_id (info_of d))"
    "find (\<lambda>r. s_device r = dev_id (info_of d)) (db_states s) = Some row"
    by simp_all
  with d show ?thesis
    by (cases d; cases "s_state row")
       (auto simp: restore_state_def fetch_state_def turn_on_def turn_off_def
          split: if_splits)
qed

lemma map_result_cong:
  "(\<And>x. x \<in> set xs \<Longrightarrow> g x = g' x) \<Longrightarrow> map_result g xs = map_result g' xs"
proof (induction xs)
  case Nil
  then show ?case by simp
next
  case (Cons x xs)
  then have "map_result g xs = map_result g' xs" and "g x = g' x" by simp_all
  then show ?case by (simp split: sum.splits)
qed

lemma restore_states_cong:
  assumes "\<And>d. d \<in> set (get_devices h) \<Longrightarrow> restore_state q s d = restore_state q s' d"
  shows "restore_states q s h = restore_states q s' h"
proof -
  have "restore_floor q s f = restore_floor q s' f" if f: "f \<in> set h" for f
  proof -
    have "restore_room q s r = restore_room q s' r" if r: "r \<in> set (floor_rooms f)" for r
    proof -
      have "map_result (restore_state q s) (room_devices r) =
            map_result (restore_state q s') (room_devices r)"
        using f r assms by (intro map_result_cong) (auto simp: in_get_devices_rooms)
      then show ?thesis by (simp add: restore_room_def)
    qed
    then have "map_result (restore_room q s) (floor_rooms f) =
               map_result (restore_room q s') (floor_rooms f)"
      by (intro map_result_cong)
    then show ?thesis by (simp add: restore_floor_def)
  qed
  then show ?thesis unfolding restore_states_def by (intro map_result_cong)
qed

lemma load_devices_state_column:
  "load_devices rd (map (\<lambda>d. if P d then d\<lparr>d_state := v d\<rparr> else d) ts) h = load_devices rd ts h"
proof (induction ts arbitrary: h)
  case Nil
  then show ?case by simp
next
  case (Cons t ts)
  have "device_of_tuple (t\<lparr>d_state := v t\<rparr>) = device_of_tuple t"
    by (simp add: device_of_tuple_def)
  with Cons show ?case by (simp split: option.splits)
qed

lemma update_actuator_state_frame:
  "db_states (update_actuator_state s a b) = db_states s \<and>
   db_rooms (update_actuator_state s a b) = db_rooms s \<and>
   db_measurements (update_actuator_state s a b) = db_measurements s \<and>
   map (\<lambda>d. d\<lparr>d_state := None\<rparr>) (db_devices (update_actuator_state s a b)) =
     map (\<lambda>d. d\<lparr>d_state := None\<rparr>) (db_devices s)"
  by (simp add: update_actuator_state_def comp_def)

lemma load_after_update_plain_ids:
  assumes "\<forall>d\<in>set (db_devices s). d_category d = ''actuator'' \<longrightarrow> splice_safe (d_id d)"
  shows "load_smarthouse_deep q (update_actuator_state s a b) = load_smarthouse_deep q s"
proof -
  let ?s = "update_actuator_state s a b"
  have ro: "db_rooms ?s = db_rooms s"
    by (simp add: update_actuator_state_def)
  have de: "load_devices rd (db_devices ?s) h = load_devices rd (db_devices s) h" for rd h
    by (simp add: update_actuator_state_def load_devices_state_column)
  have rs: "restore_states q ?s h1 = restore_states q s h1"
    if a: "load_rooms (db_rooms s) (create_floors n) Map.empty = Inr (h0, rd)"
      and b: "load_devices rd (db_devices s) h0 = Inr h1" for n h0 rd h1
  proof (rule restore_states_cong)
    fix d assume "d \<in> set (get_devices h1)"
    from loaded_before_restore [OF a b this] obtain t where
      "t \<in> set (db_devices s)" "device_of_tuple t = Some d" by blast
    with assms device_of_tuple_id [of t d]
    have "is_actuator d \<longrightarrow> splice_safe (dev_id (info_of d))" by auto
    then show "restore_state q ?s d = restore_state q s d"
      by (simp add: restore_state_def fetch_state_def update_actuator_state_def)
  qed
  show ?thesis
    unfolding load_smarthouse_deep_def ro de
    by (auto split: option.splits sum.splits prod.splits simp: rs)
qed

end
